theory Spec2Isabelle
  imports Main "HOL-Library.AList"
begin

section \<open>Export name registry (es6-module-utils.ts)\<close>

subsection \<open>Strings, character classes and the regular expressions of the source\<close>

text \<open>
  A JavaScript string is a sequence of UTF-16 code units. The model uses \<open>string\<close>: a
  \<open>char\<close> stands for a code unit below 256. The regular expressions of the source have no
  \<open>u\<close> flag, so the classes below are exactly the ASCII ones, also under the \<open>i\<close> flag.
\<close>

definition is_digit :: "char \<Rightarrow> bool" where
  "is_digit c = (48 \<le> (of_char c :: nat) \<and> (of_char c :: nat) \<le> 57)"

text \<open>The class \<open>[a-z0-9_]\<close>, case sensitive.\<close>

definition is_lower_word :: "char \<Rightarrow> bool" where
  "is_lower_word c =
     ((97 \<le> (of_char c :: nat) \<and> (of_char c :: nat) \<le> 122) \<or> is_digit c \<or> c = CHR ''_'')"

text \<open>The class \<open>[a-z0-9_]\<close> under the \<open>i\<close> flag.\<close>

definition is_word :: "char \<Rightarrow> bool" where
  "is_word c = (is_lower_word c \<or> (65 \<le> (of_char c :: nat) \<and> (of_char c :: nat) \<le> 90))"

text \<open>
  \<open>s.replace(/\.[a-z0-9_]+$/, '')\<close>: the match is a dot followed by a non-empty run of class
  characters that reaches the end of the string. A dot is not in the class, so the only
  candidate is the dot in front of the longest trailing run of class characters.
\<close>

definition strip_extension :: "string \<Rightarrow> string" where
  "strip_extension s =
     (let ext = takeWhile is_lower_word (rev s);
          rest = dropWhile is_lower_word (rev s)
      in if ext \<noteq> [] \<and> rest \<noteq> [] \<and> hd rest = CHR ''.'' then rev (tl rest) else s)"

text \<open>
  \<open>String.prototype.replace\<close> with a string as replacement expands the patterns \<open>$$\<close>,
  \<open>$&\<close>, \<open>$`\<close> and \<open>$'\<close> in it. Both anchored expressions of the source match the whole
  string or nothing and have no capture group: the text before and after the match is
  empty, and \<open>$1\<close> ... \<open>$99\<close> and \<open>$<\<close> stay as they are.
\<close>

fun get_substitution :: "string \<Rightarrow> string \<Rightarrow> string" where
  "get_substitution matched [] = []"
| "get_substitution matched [c] = [c]"
| "get_substitution matched (c # d # r) =
     (if c = CHR ''$'' then
        (if d = CHR ''$'' then CHR ''$'' # get_substitution matched r
         else if d = CHR ''&'' then matched @ get_substitution matched r
         else if d = CHR 0x60 \<or> d = CHR 0x27 then get_substitution matched r
         else c # get_substitution matched (d # r))
      else c # get_substitution matched (d # r))"

text \<open>\<open>s.replace(/^default$/, repl)\<close> and \<open>s.replace(/^\*$/, repl)\<close>.\<close>

definition replace_whole :: "string \<Rightarrow> string \<Rightarrow> string \<Rightarrow> string" where
  "replace_whole pat repl s = (if s = pat then get_substitution s repl else s)"

text \<open>\<open>s.replace(/[^a-z0-9_]/gi, '$')\<close>; a lone \<open>$\<close> in the replacement is literal.\<close>

definition sanitize :: "string \<Rightarrow> string" where
  "sanitize s = map (\<lambda>c. if is_word c then c else CHR ''$'') s"

text \<open>\<open>trialName.match(/\$[0-9]+$/)\<close>: a dollar sign, then digits up to the end.\<close>

definition has_counter_suffix :: "string \<Rightarrow> bool" where
  "has_counter_suffix t =
     (let ds = takeWhile is_digit (rev t); rest = dropWhile is_digit (rev t)
      in ds \<noteq> [] \<and> rest \<noteq> [] \<and> hd rest = CHR ''$'')"

text \<open>The decimal text of a natural number, without leading zeros.\<close>

fun to_decimal :: "nat \<Rightarrow> string" where
  "to_decimal n =
     (if n < 10 then [char_of (48 + n)]
      else to_decimal (n div 10) @ [char_of (48 + n mod 10)])"

declare to_decimal.simps [simp del]

text \<open>The integer a string of decimal digits denotes (leading zeros allowed).\<close>

definition digits_value :: "string \<Rightarrow> nat" where
  "digits_value v = foldl (\<lambda>a c. 10 * a + ((of_char c :: nat) - 48)) 0 v"

subsection \<open>JavaScript numbers in \<open>`${parseInt(v) + 1}`\<close>\<close>

text \<open>
  A JavaScript number is an IEEE 754 double. The numbers that occur here are the
  non-negative integers among the doubles, and infinity. An integer up to \<open>2^53\<close> is a
  double; a larger one is rounded to 53 significant bits, to the nearest double and to
  the one with the even significand when two are equally near. \<open>double_ulp n 1\<close> is the
  distance between the doubles around \<open>n\<close>, the least power of two \<open>u\<close> with
  \<open>n < 2^53 * u\<close>.
\<close>

function double_ulp :: "nat \<Rightarrow> nat \<Rightarrow> nat" where
  "double_ulp n u = (if u = 0 \<or> n < 2 ^ 53 * u then u else double_ulp n (2 * u))"
  by pat_completeness auto
termination
proof (relation "measure (\<lambda>(n, u). n - u)")
  show "wf (measure (\<lambda>(n, u). n - u))" by simp
next
  fix n u :: nat
  assume "\<not> (u = 0 \<or> n < 2 ^ 53 * u)"
  then have "u > 0" and "2 ^ 53 * u \<le> n" by simp_all
  moreover have "2 * u \<le> 2 ^ 53 * u" by simp
  ultimately have "n - 2 * u < n - u" by linarith
  then show "((n, 2 * u), (n, u)) \<in> measure (\<lambda>(n, u). n - u)" by simp
qed

declare double_ulp.simps [simp del]

definition round_at :: "nat \<Rightarrow> nat \<Rightarrow> nat" where
  "round_at n u =
     (if n mod u > u div 2 \<or> (n mod u = u div 2 \<and> odd (n div u)) then (n div u + 1) * u
      else (n div u) * u)"

definition round_to_double :: "nat \<Rightarrow> nat" where
  "round_to_double n = (if n \<le> 2 ^ 53 then n else round_at n (double_ulp n 1))"

datatype js_number = Finite nat | Infinity

text \<open>A result of \<open>2^1024\<close> or more is infinity.\<close>

definition finite_or_infinity :: "nat \<Rightarrow> js_number" where
  "finite_or_infinity r = (if r < 2 ^ 1024 then Finite r else Infinity)"

definition to_double :: "nat \<Rightarrow> js_number" where
  "to_double n = finite_or_infinity (round_to_double n)"

text \<open>
  \<open>parseInt(v)\<close> on a string of decimal digits: the double nearest to the integer (an
  engine may drop digits after the twentieth; V8 does not).
\<close>

definition parseInt :: "string \<Rightarrow> js_number" where
  "parseInt v = to_double (digits_value v)"

text \<open>\<open>x + 1\<close>\<close>

fun add_one :: "js_number \<Rightarrow> js_number" where
  "add_one (Finite d) = to_double (d + 1)"
| "add_one Infinity = Infinity"

text \<open>
  The text of a number in a template literal (\<open>Number::toString\<close>). An integer up to
  \<open>2^53\<close> prints as its decimal digits. Above, the digits are the shortest \<open>s\<close> for which
  \<open>s * 10^(n-k)\<close> rounds to the number (\<open>k\<close> digits, the nearest such \<open>s\<close>, the even one
  of two equally near); up to \<open>n = 21\<close> they are followed by \<open>n - k\<close> zeros, beyond that
  the number prints with an exponent. The functions carry \<open>10^n\<close>, \<open>10^k\<close> and
  \<open>unit = 10^(n-k)\<close> instead of \<open>n\<close> and \<open>k\<close>.
\<close>

text \<open>The least power of ten above \<open>x\<close>, with its exponent: start with \<open>p = 1\<close>, \<open>n = 0\<close>.\<close>

function decimal_magnitude :: "nat \<Rightarrow> nat \<Rightarrow> nat \<Rightarrow> nat \<times> nat" where
  "decimal_magnitude x p n =
     (if p = 0 \<or> x < p then (p, n) else decimal_magnitude x (10 * p) (n + 1))"
  by pat_completeness auto
termination
proof (relation "measure (\<lambda>(x, p, n). Suc x - p)")
  show "wf (measure (\<lambda>(x, p, n). Suc x - p))" by simp
next
  fix x p n :: nat
  assume "\<not> (p = 0 \<or> x < p)"
  then have "p > 0" "p \<le> x" by simp_all
  then have "Suc x - 10 * p < Suc x - p" by linarith
  then show "((x, 10 * p, n + 1), (x, p, n)) \<in> measure (\<lambda>(x, p, n). Suc x - p)" by simp
qed

declare decimal_magnitude.simps [simp del]

text \<open>\<open>s\<close> has \<open>k\<close> digits (\<open>K = 10^k\<close>) and \<open>s * unit\<close> rounds to \<open>x\<close>.\<close>

definition valid_digits :: "nat \<Rightarrow> nat \<Rightarrow> nat \<Rightarrow> nat \<Rightarrow> bool" where
  "valid_digits x unit K s = (K div 10 \<le> s \<and> s < K \<and> round_to_double (s * unit) = x)"

text \<open>Of the two multiples of \<open>unit\<close> around \<open>x\<close>, the valid one nearest to \<open>x\<close>.\<close>

definition nearest_digits :: "nat \<Rightarrow> nat \<Rightarrow> nat \<Rightarrow> nat \<Rightarrow> nat option" where
  "nearest_digits x unit K lo =
     (if valid_digits x unit K lo \<and> valid_digits x unit K (lo + 1) then
        Some (if x - lo * unit < (lo + 1) * unit - x then lo
              else if (lo + 1) * unit - x < x - lo * unit then lo + 1
              else if even lo then lo else lo + 1)
      else if valid_digits x unit K lo then Some lo
      else if valid_digits x unit K (lo + 1) then Some (lo + 1)
      else None)"

definition choose_digits :: "nat \<Rightarrow> nat \<Rightarrow> nat \<Rightarrow> nat option" where
  "choose_digits x unit K = nearest_digits x unit K (x div unit)"

text \<open>The shortest digits and their unit, for \<open>P = 10^n\<close>: start with \<open>K = 10\<close>.\<close>

function shortest_digits :: "nat \<Rightarrow> nat \<Rightarrow> nat \<Rightarrow> nat \<times> nat" where
  "shortest_digits x P K =
     (if K = 0 \<or> P \<le> K then (x, 1)
      else case choose_digits x (P div K) K of
             Some s \<Rightarrow> (s, P div K)
           | None \<Rightarrow> shortest_digits x P (10 * K))"
  by pat_completeness auto
termination
proof (relation "measure (\<lambda>(x, P, K). P - K)")
  show "wf (measure (\<lambda>(x, P, K). P - K))" by simp
next
  fix x P K :: nat
  assume "\<not> (K = 0 \<or> P \<le> K)"
  then have "P - 10 * K < P - K" by linarith
  then show "((x, P, 10 * K), (x, P, K)) \<in> measure (\<lambda>(x, P, K). P - K)" by simp
qed

declare shortest_digits.simps [simp del]

text \<open>
  Digits, unit and \<open>n\<close> of a number above \<open>2^53\<close>. When the power of ten above \<open>x\<close> rounds
  to \<open>x\<close>, the digits are \<open>1\<close> and \<open>n\<close> is one more.
\<close>

fun digits_at :: "nat \<Rightarrow> nat \<times> nat \<Rightarrow> nat \<times> nat \<times> nat" where
  "digits_at x (P, n) =
     (if round_to_double P = x then (1, P, n + 1)
      else (fst (shortest_digits x P 10), snd (shortest_digits x P 10), n))"

definition scientific_digits :: "nat \<Rightarrow> nat \<times> nat \<times> nat" where
  "scientific_digits x = digits_at x (decimal_magnitude x 1 0)"

fun format_digits :: "nat \<times> nat \<times> nat \<Rightarrow> string" where
  "format_digits (s, unit, n) =
     (if n \<le> 21 then to_decimal s @ tl (to_decimal unit)
      else if s < 10 then to_decimal s @ ''e+'' @ to_decimal (n - 1)
      else hd (to_decimal s) # CHR ''.'' # tl (to_decimal s) @ ''e+'' @ to_decimal (n - 1))"

fun number_to_string :: "js_number \<Rightarrow> string" where
  "number_to_string Infinity = ''Infinity''"
| "number_to_string (Finite x) =
     (if x \<le> 2 ^ 53 then to_decimal x else format_digits (scientific_digits x))"

subsection \<open>The loop's next trial name\<close>

text \<open>
  \<open>trialName.replace(/[0-9]+$/, (v) => `${parseInt(v) + 1}`)\<close>: the match is the longest
  trailing run of digits; without one the string stays as it is.
\<close>

definition increment_counter :: "string \<Rightarrow> string" where
  "increment_counter t =
     (let v = rev (takeWhile is_digit (rev t)); p = rev (dropWhile is_digit (rev t))
      in if v = [] then t else p @ number_to_string (add_one (parseInt v)))"

text \<open>The body of the \<open>else\<close> branch of the loop (lines 49 to 53).\<close>

definition next_trial :: "string \<Rightarrow> string" where
  "next_trial t = (if has_counter_suffix t then increment_counter t else t @ ''$1'')"

subsection \<open>The bundle's export map\<close>

text \<open>
  \<open>bundle.bundle.bundledExports\<close> is a \<open>Map<ResolvedUrl, Map<string, string>>\<close>. A
  JavaScript \<open>Map\<close> keeps its keys in insertion order; it is an association list here,
  \<open>get\<close> is \<^const>\<open>map_of\<close>, and \<open>set\<close> replaces the value of a present key in place and
  appends an absent one, which is \<^const>\<open>AList.update\<close>.
\<close>

type_synonym module_exports = "(string \<times> string) list"
type_synonym bundled_exports = "(string \<times> module_exports) list"

text \<open>
  \<open>[...bundledExports.values()].every((map) => [...map.values()].indexOf(trialName) === -1)\<close>
\<close>

definition name_free :: "bundled_exports \<Rightarrow> string \<Rightarrow> bool" where
  "name_free bundledExports trialName =
     list_all (\<lambda>m. trialName \<notin> set (map snd m)) (map snd bundledExports)"

text \<open>
  The loop of lines 44 to 55. \<open>exportName = trialName\<close> ends the loop only when the name is
  truthy: with the empty string as a free trial name the loop runs again unchanged. A
  loop that never ends is the value \<open>None\<close>.
\<close>

partial_function (option) find_name :: "bundled_exports \<Rightarrow> string \<Rightarrow> string option" where
  "find_name bundledExports trialName =
     (if name_free bundledExports trialName then
        (if trialName = [] then find_name bundledExports trialName
         else Some trialName)
      else find_name bundledExports (next_trial trialName))"

text \<open>
  Lines 38 to 43. \<open>getFileName\<close> (url-utils) and \<open>camelCase\<close> (utils) are not part of the
  sources at hand and are parameters.
\<close>

definition trial_name :: "(string \<Rightarrow> string) \<Rightarrow> (string \<Rightarrow> string) \<Rightarrow> string \<Rightarrow> string \<Rightarrow> string" where
  "trial_name getFileName camelCase moduleUrl name =
     (let moduleFileNameIdentifier = CHR ''$'' # camelCase (strip_extension (getFileName moduleUrl))
      in sanitize
           (replace_whole ''*'' moduleFileNameIdentifier
             (replace_whole ''default'' (moduleFileNameIdentifier @ ''Default'') name)))"

text \<open>
  The function itself. The result is the returned name and the bundle's export map after
  the call. \<open>!moduleExports\<close> holds for a missing entry only (a \<open>Map\<close> is truthy);
  \<open>!exportName\<close> holds for a missing entry and for the empty string.
\<close>

definition getOrSetBundleModuleExportName ::
  "(string \<Rightarrow> string) \<Rightarrow> (string \<Rightarrow> string) \<Rightarrow> bundled_exports \<Rightarrow> string \<Rightarrow> string
     \<Rightarrow> (string \<times> bundled_exports) option" where
  "getOrSetBundleModuleExportName getFileName camelCase bundledExports0 moduleUrl name =
     (let (moduleExports, bundledExports) =
            (case map_of bundledExports0 moduleUrl of
               None \<Rightarrow> ([], AList.update moduleUrl [] bundledExports0)
             | Some m \<Rightarrow> (m, bundledExports0));
          exportName = map_of moduleExports name
      in if exportName \<noteq> None \<and> exportName \<noteq> Some [] then
           Some (the exportName, bundledExports)
         else
           (case find_name bundledExports (trial_name getFileName camelCase moduleUrl name) of
              None \<Rightarrow> None
            | Some e \<Rightarrow>
                Some (e, AList.update moduleUrl (AList.update name e moduleExports) bundledExports)))"

subsection \<open>Notions used to state the properties of the registry\<close>

text \<open>Every name assigned in the bundle, module after module.\<close>

definition all_names :: "bundled_exports \<Rightarrow> string list" where
  "all_names b = concat (map (\<lambda>e. map snd (snd e)) b)"

text \<open>The name recorded for an export of a module, \<open>bundledExports.get(moduleUrl).get(name)\<close>.\<close>

definition lookup_name :: "bundled_exports \<Rightarrow> string \<Rightarrow> string \<Rightarrow> string option" where
  "lookup_name b moduleUrl name =
     (case map_of b moduleUrl of None \<Rightarrow> None | Some m \<Rightarrow> map_of m name)"

text \<open>
  A sequence of calls on one bundle, each on the export map the call before left; the
  result is the list of the returned names and the final export map.
\<close>

fun resolve_all ::
  "(string \<Rightarrow> string) \<Rightarrow> (string \<Rightarrow> string) \<Rightarrow> bundled_exports \<Rightarrow> (string \<times> string) list
     \<Rightarrow> (string list \<times> bundled_exports) option" where
  "resolve_all getFileName camelCase b [] = Some ([], b)"
| "resolve_all getFileName camelCase b ((moduleUrl, name) # rs) =
     (case getOrSetBundleModuleExportName getFileName camelCase b moduleUrl name of
        None \<Rightarrow> None
      | Some (v, b1) \<Rightarrow>
          (case resolve_all getFileName camelCase b1 rs of
             None \<Rightarrow> None
           | Some (vs, b2) \<Rightarrow> Some (v # vs, b2)))"

definition starts_with_digit :: "string \<Rightarrow> bool" where
  "starts_with_digit s = (case s of [] \<Rightarrow> False | c # _ \<Rightarrow> is_digit c)"

text \<open>The characters \<open>[A-Za-z0-9_$]\<close>.\<close>

definition is_identifier_char :: "char \<Rightarrow> bool" where
  "is_identifier_char c = (is_word c \<or> c = CHR ''$'')"

text \<open>A bare identifier: not empty, identifier characters only, no digit in front.\<close>

definition valid_identifier :: "string \<Rightarrow> bool" where
  "valid_identifier s = (s \<noteq> [] \<and> list_all is_identifier_char s \<and> \<not> starts_with_digit s)"



section \<open>Names exported by a module (es6-module-utils.ts)\<close>

text \<open>
  The Babel syntax tree, as far as the functions read it. \<open>Null\<close> is an absent child (a
  hole of an array pattern, an export without declaration); \<open>File\<close> is the root the parser
  returns, with its program; \<open>Other\<close> is a node of any other kind with its children. A declarator carries its \<open>id\<close> and \<open>init\<close>, a function or class
  declaration its \<open>id\<close> and its other children, an export specifier \<open>local\<close> and
  \<open>exported\<close>, a named export \<open>declaration\<close>, \<open>specifiers\<close> and \<open>source\<close>.
\<close>

datatype node =
    Null
  | Identifier string
  | ArrayPattern "node list"
  | ObjectPattern "node list"
  | ObjectProperty node node
  | RestElement node
  | AssignmentPattern node node
  | VariableDeclarator node node
  | VariableDeclaration "node list"
  | FunctionDeclaration node "node list"
  | ClassDeclaration node "node list"
  | ExportSpecifier node node
  | ExportNamedDeclaration node "node list" node
  | ExportDefaultDeclaration node
  | ExportAllDeclaration node
  | Program "node list"
  | File node
  | Other "node list"

text \<open>
  \<open>getModuleExportIdentifiers(...nodes)\<close>. The tests of the source are on the node's kind,
  so at most one of them holds for a node; a node of no tested kind adds nothing.
\<close>

fun getModuleExportIdentifiers :: "node list \<Rightarrow> string list" where
  "getModuleExportIdentifiers [] = []"
| "getModuleExportIdentifiers (ArrayPattern elements # nodes) =
     getModuleExportIdentifiers elements @ getModuleExportIdentifiers nodes"
| "getModuleExportIdentifiers (ClassDeclaration ident body # nodes) =
     getModuleExportIdentifiers [ident] @ getModuleExportIdentifiers nodes"
| "getModuleExportIdentifiers (FunctionDeclaration ident body # nodes) =
     getModuleExportIdentifiers [ident] @ getModuleExportIdentifiers nodes"
| "getModuleExportIdentifiers (VariableDeclarator ident init # nodes) =
     getModuleExportIdentifiers [ident] @ getModuleExportIdentifiers nodes"
| "getModuleExportIdentifiers (ExportSpecifier local exported # nodes) =
     getModuleExportIdentifiers [exported] @ getModuleExportIdentifiers nodes"
| "getModuleExportIdentifiers (Identifier name # nodes) =
     name # getModuleExportIdentifiers nodes"
| "getModuleExportIdentifiers (ObjectPattern properties # nodes) =
     getModuleExportIdentifiers properties @ getModuleExportIdentifiers nodes"
| "getModuleExportIdentifiers (ObjectProperty key val # nodes) =
     getModuleExportIdentifiers [val] @ getModuleExportIdentifiers nodes"
| "getModuleExportIdentifiers (VariableDeclaration declarations # nodes) =
     getModuleExportIdentifiers declarations @ getModuleExportIdentifiers nodes"
| "getModuleExportIdentifiers (node # nodes) = getModuleExportIdentifiers nodes"

text \<open>
  \<open>traverse(node, {ExportNamedDeclaration: {enter}})\<close> visits every node below the root, a
  node before its children, and \<open>enter\<close> pushes the names of a named export; the root
  itself is not visited. \<open>visit\<close> is the visit of one node with everything below it.
\<close>

fun visit :: "node \<Rightarrow> string list" where
  "visit Null = []"
| "visit (Identifier name) = []"
| "visit (ArrayPattern elements) = concat (map visit elements)"
| "visit (ObjectPattern properties) = concat (map visit properties)"
| "visit (ObjectProperty key val) = visit key @ visit val"
| "visit (RestElement argument) = visit argument"
| "visit (AssignmentPattern left right) = visit left @ visit right"
| "visit (VariableDeclarator ident init) = visit ident @ visit init"
| "visit (VariableDeclaration declarations) = concat (map visit declarations)"
| "visit (FunctionDeclaration ident body) = visit ident @ concat (map visit body)"
| "visit (ClassDeclaration ident body) = visit ident @ concat (map visit body)"
| "visit (ExportSpecifier local exported) = visit local @ visit exported"
| "visit (ExportNamedDeclaration declaration specifiers source) =
     getModuleExportIdentifiers specifiers @ getModuleExportIdentifiers [declaration]
       @ visit declaration @ concat (map visit specifiers) @ visit source"
| "visit (ExportDefaultDeclaration declaration) = visit declaration"
| "visit (ExportAllDeclaration source) = visit source"
| "visit (Program body) = concat (map visit body)"
| "visit (File program) = visit program"
| "visit (Other children) = concat (map visit children)"

fun children :: "node \<Rightarrow> node list" where
  "children Null = []"
| "children (Identifier name) = []"
| "children (ArrayPattern elements) = elements"
| "children (ObjectPattern properties) = properties"
| "children (ObjectProperty key val) = [key, val]"
| "children (RestElement argument) = [argument]"
| "children (AssignmentPattern left right) = [left, right]"
| "children (VariableDeclarator ident init) = [ident, init]"
| "children (VariableDeclaration declarations) = declarations"
| "children (FunctionDeclaration ident body) = ident # body"
| "children (ClassDeclaration ident body) = ident # body"
| "children (ExportSpecifier local exported) = [local, exported]"
| "children (ExportNamedDeclaration declaration specifiers source) =
     declaration # specifiers @ [source]"
| "children (ExportDefaultDeclaration declaration) = [declaration]"
| "children (ExportAllDeclaration source) = [source]"
| "children (Program body) = body"
| "children (File program) = [program]"
| "children (Other nodes) = nodes"

definition traverse :: "node \<Rightarrow> string list" where
  "traverse root = concat (map visit (children root))"

definition getModuleExportNames :: "node \<Rightarrow> string set" where
  "getModuleExportNames node = set (traverse node)"

subsection \<open>The names a module exports, by the language\<close>

text \<open>
  The bound names of a binding target or declaration as ECMAScript defines them: a
  default value and a rest element bind the name of their target.
\<close>

fun bound_names :: "node \<Rightarrow> string list" where
  "bound_names (Identifier name) = [name]"
| "bound_names (ArrayPattern elements) = concat (map bound_names elements)"
| "bound_names (ObjectPattern properties) = concat (map bound_names properties)"
| "bound_names (ObjectProperty key val) = bound_names val"
| "bound_names (RestElement argument) = bound_names argument"
| "bound_names (AssignmentPattern left right) = bound_names left"
| "bound_names (VariableDeclarator ident init) = bound_names ident"
| "bound_names (VariableDeclaration declarations) = concat (map bound_names declarations)"
| "bound_names (FunctionDeclaration ident body) = bound_names ident"
| "bound_names (ClassDeclaration ident body) = bound_names ident"
| "bound_names node = []"

text \<open>The exported name of a specifier: the alias, not the local name.\<close>

fun specifier_names :: "node \<Rightarrow> string list" where
  "specifier_names (ExportSpecifier local (Identifier name)) = [name]"
| "specifier_names node = []"

text \<open>The names of the named exports at the top level of a module.\<close>

fun statement_export_names :: "node \<Rightarrow> string list" where
  "statement_export_names (ExportNamedDeclaration declaration specifiers source) =
     concat (map specifier_names specifiers) @ bound_names declaration"
| "statement_export_names node = []"

fun spec_export_names :: "node \<Rightarrow> string set" where
  "spec_export_names (Program body) = set (concat (map statement_export_names body))"
| "spec_export_names (File (Program body)) = set (concat (map statement_export_names body))"
| "spec_export_names node = {}"

section \<open>Project converter (project-converter.ts)\<close>

text \<open>
  A \<open>ConversionResult\<close> with the fields the class reads. \<open>output\<close> is
  \<open>string | undefined\<close>: \<open>None\<close> is \<open>undefined\<close>, and the empty string is an output (the
  field is primed: its plain name is a keyword of Isabelle).
\<close>

record conversion_result =
  originalUrl :: string
  convertedFilePath :: string
  deleteOriginal :: bool
  output' :: "string option"

text \<open>An analyzer document, with the two attributes the class and its collaborators read.\<close>

record document =
  url :: string
  kinds :: "string set"

text \<open>
  The scanner's results: \<open>files\<close> maps a document URL to the \<open>type\<close> of its scan result,
  \<open>exports\<close> is the export map handed to the document converter.
\<close>

record 'ex scan_results =
  files :: "string \<Rightarrow> string option"
  exports :: "'ex"

text \<open>
  \<open>ProjectScanner\<close>, \<open>UrlHandler\<close> and \<open>DocumentConverter\<close> are not part of the sources at
  hand: their operations are parameters, the scanner's over a state \<open>'sc\<close> of its own. The
  three conversions read the document and the export map (the URL handler and the
  settings are fixed per converter).
\<close>

record ('sc, 'ex) collaborators =
  scanPackage :: "'sc \<Rightarrow> string \<Rightarrow> 'sc"
  scanDocument :: "'sc \<Rightarrow> document \<Rightarrow> 'sc"
  getPackageDocuments :: "'sc \<Rightarrow> string \<Rightarrow> document list"
  scanner_getResults :: "'sc \<Rightarrow> 'ex scan_results"
  getDocumentUrl :: "document \<Rightarrow> string"
  convertJsModule :: "document \<Rightarrow> 'ex \<Rightarrow> conversion_result list"
  convertTopLevelHtmlDocument :: "document \<Rightarrow> 'ex \<Rightarrow> conversion_result"
  createDeleteResult :: "document \<Rightarrow> 'ex \<Rightarrow> conversion_result"

text \<open>
  The converter's state: the scanner, the cache \<open>results\<close> (a \<open>Map\<close> in insertion order)
  and what was printed on the console.
\<close>

record 'sc project_converter =
  scanner :: "'sc"
  results :: "(string \<times> conversion_result) list"
  console :: "string list"

datatype error = Error string

definition excludeFromResults :: "string list" where
  "excludeFromResults =
     [''shadycss/entrypoints/apply-shim.js'',
      ''bower_components/shadycss/entrypoints/apply-shim.js'',
      ''shadycss/entrypoints/custom-style-interface.js'',
      ''bower_components/shadycss/entrypoints/custom-style-interface.js'']"

text \<open>The message of the assertion; a \<open>Set\<close> in a template literal prints as \<open>[object Set]\<close>.\<close>

definition assert_message :: string where
  "assert_message =
     ''convertDocument() must be called with an HTML document, but got [object Set]''"

text \<open>\<open>this.results.set(newModule.originalUrl, newModule)\<close>\<close>

definition store :: "(string \<times> conversion_result) list \<Rightarrow> conversion_result
    \<Rightarrow> (string \<times> conversion_result) list" where
  "store cache newModule = AList.update (originalUrl newModule) newModule cache"

text \<open>
  \<open>convertDocument\<close>. \<open>console.assert\<close> with a false condition prints its message and
  returns (the console standard; Node.js from version 10 on): it does not throw. A
  thrown error is \<open>Inl\<close>, with the state the call leaves behind; a scan result of none
  of the three types stores nothing.
\<close>

definition convertDocument ::
  "('sc, 'ex) collaborators \<Rightarrow> 'sc project_converter \<Rightarrow> document
     \<Rightarrow> (error \<times> 'sc project_converter) + 'sc project_converter" where
  "convertDocument env this doc =
     (let this0 = (if ''html-document'' \<in> kinds doc then this
                   else this\<lparr>console := console this @ [assert_message]\<rparr>);
          this1 = this0\<lparr>scanner := scanDocument env (scanner this0) doc\<rparr>;
          scanResults = scanner_getResults env (scanner this1);
          documentUrl = getDocumentUrl env doc
      in case files scanResults documentUrl of
           None \<Rightarrow> Inl (Error (''File not found during scan: '' @ documentUrl), this1)
         | Some scanResult_type \<Rightarrow>
             if scanResult_type = ''js-module'' then
               Inr (this1\<lparr>results :=
                      foldl store (results this1) (convertJsModule env doc (exports scanResults))\<rparr>)
             else if scanResult_type = ''html-document'' then
               Inr (this1\<lparr>results :=
                      store (results this1) (convertTopLevelHtmlDocument env doc (exports scanResults))\<rparr>)
             else if scanResult_type = ''delete-file'' then
               Inr (this1\<lparr>results :=
                      store (results this1) (createDeleteResult env doc (exports scanResults))\<rparr>)
             else Inr this1)"

text \<open>The loop of \<open>convertPackage\<close>: a thrown error ends it.\<close>

fun convert_each ::
  "('sc, 'ex) collaborators \<Rightarrow> 'sc project_converter \<Rightarrow> document list
     \<Rightarrow> (error \<times> 'sc project_converter) + 'sc project_converter" where
  "convert_each env this [] = Inr this"
| "convert_each env this (doc # docs) =
     (case convertDocument env this doc of
        Inl e \<Rightarrow> Inl e
      | Inr this' \<Rightarrow> convert_each env this' docs)"

definition convertPackage ::
  "('sc, 'ex) collaborators \<Rightarrow> 'sc project_converter \<Rightarrow> string
     \<Rightarrow> (error \<times> 'sc project_converter) + 'sc project_converter" where
  "convertPackage env this matchPackageName =
     (let this1 = this\<lparr>scanner := scanPackage env (scanner this) matchPackageName\<rparr>
      in convert_each env this1 (getPackageDocuments env (scanner this1) matchPackageName))"

text \<open>
  \<open>getResults\<close>: the loop over \<open>this.results.values()\<close>, with the map built so far. The
  result maps a path to its content, or to \<open>None\<close> (\<open>undefined\<close>) for a file to delete.
\<close>

fun collect_results :: "conversion_result list \<Rightarrow> (string \<times> string option) list
    \<Rightarrow> (string \<times> string option) list" where
  "collect_results [] res = res"
| "collect_results (convertedModule # rest) res =
     (if originalUrl convertedModule \<in> set excludeFromResults then collect_results rest res
      else
        let res1 = (if deleteOriginal convertedModule
                    then AList.update (originalUrl convertedModule) None res else res);
            res2 = (if output' convertedModule \<noteq> None
                    then AList.update (convertedFilePath convertedModule) (output' convertedModule) res1
                    else res1)
        in collect_results rest res2)"

definition getResults :: "'sc project_converter \<Rightarrow> (string \<times> string option) list" where
  "getResults this = collect_results (map snd (results this)) []"

subsection \<open>Notions used to state the properties of the converter\<close>

text \<open>
  The entries one cached record writes to the result, in the order it writes them;
  \<open>upd_all\<close> below writes a list of entries to a result, one after the other.
\<close>

definition entries_of :: "conversion_result \<Rightarrow> (string \<times> string option) list" where
  "entries_of r =
     (if originalUrl r \<in> set excludeFromResults then []
      else (if deleteOriginal r then [(originalUrl r, None)] else [])
           @ (case output' r of None \<Rightarrow> [] | Some content \<Rightarrow> [(convertedFilePath r, Some content)]))"

text \<open>A cache as the converter builds it: a record is stored under its own original URL, once.\<close>

definition cache_ok :: "(string \<times> conversion_result) list \<Rightarrow> bool" where
  "cache_ok cache = (distinct (map fst cache) \<and> list_all (\<lambda>e. originalUrl (snd e) = fst e) cache)"

text \<open>
  Collaborators for the examples. The scanner's state is the list of the documents
  scanned so far, and scanning a scanned document again changes nothing; every scanned
  document is classified by \<open>classify\<close>; the export map is the list of scanned documents;
  the converted module of a document lists the exports known when it is converted.
\<close>

definition example_env :: "(string \<Rightarrow> string option) \<Rightarrow> (string list, string list) collaborators" where
  "example_env classify =
     \<lparr>scanPackage = (\<lambda>sc p. sc),
      scanDocument = (\<lambda>sc d. if url d \<in> set sc then sc else sc @ [url d]),
      getPackageDocuments = (\<lambda>sc p. []),
      scanner_getResults = (\<lambda>sc. \<lparr>files = (\<lambda>u. if u \<in> set sc then classify u else None), exports = sc\<rparr>),
      getDocumentUrl = url,
      convertJsModule = (\<lambda>d ex. [\<lparr>originalUrl = url d, convertedFilePath = url d @ ''.js'',
                                  deleteOriginal = True, output' = Some (concat ex)\<rparr>]),
      convertTopLevelHtmlDocument = (\<lambda>d ex. \<lparr>originalUrl = url d, convertedFilePath = url d,
                                  deleteOriginal = False, output' = Some (concat ex)\<rparr>),
      createDeleteResult = (\<lambda>d ex. \<lparr>originalUrl = url d, convertedFilePath = url d,
                                  deleteOriginal = True, output' = None\<rparr>)\<rparr>"

definition upd_all :: "(string \<times> string option) list \<Rightarrow> (string \<times> string option) list
    \<Rightarrow> (string \<times> string option) list" where
  "upd_all res es = foldl (\<lambda>res e. AList.update (fst e) (snd e) res) res es"

definition html_doc :: "string \<Rightarrow> document" where
  "html_doc u = \<lparr>url = u, kinds = {''html-document''}\<rparr>"

definition js_doc :: "string \<Rightarrow> document" where
  "js_doc u = \<lparr>url = u, kinds = {''js-document''}\<rparr>"

definition module_record :: "string \<Rightarrow> string \<Rightarrow> bool \<Rightarrow> string option \<Rightarrow> conversion_result" where
  "module_record original converted delete content =
     \<lparr>originalUrl = original, convertedFilePath = converted, deleteOriginal = delete,
      output' = content\<rparr>"

definition new_converter :: "string list project_converter" where
  "new_converter = \<lparr>scanner = [], results = [], console = []\<rparr>"


section \<open>Properties of the export name registry\<close>

subsection \<open>One call\<close>

lemma name_free_iff: "name_free b t \<longleftrightarrow> t \<notin> set (all_names b)"
  by (induction b) (auto simp: name_free_def all_names_def)


lemma all_names_Nil [simp]: "all_names [] = []"
  by (simp add: all_names_def)

lemma all_names_Cons [simp]: "all_names ((k, l) # b) = map snd l @ all_names b"
  by (simp add: all_names_def)

lemma find_name_result:
  assumes "find_name b t = Some v"
  shows "name_free b v \<and> v \<noteq> []"
  by (rule find_name.raw_induct
        [where P = "\<lambda>b t v. name_free b v \<and> v \<noteq> []", OF _ assms])
     (auto split: if_splits)

lemma find_name_sound:
  "find_name b t = Some v \<Longrightarrow> name_free b v \<and> v \<noteq> []"
  by (rule find_name_result)

lemma all_names_update_empty:
  "map_of b m = None \<Longrightarrow> all_names (AList.update m [] b) = all_names b"
  by (induction b) auto

lemma values_update_subset:
  "set (map snd (AList.update k v l)) \<subseteq> insert v (set (map snd l))"
  by (induction l) auto

lemma values_update_distinct:
  "distinct (map snd l) \<Longrightarrow> v \<notin> set (map snd l) \<Longrightarrow> distinct (map snd (AList.update k v l))"
proof (induction l)
  case Nil then show ?case by simp
next
  case (Cons a l)
  have "set (map snd (AList.update k v l)) \<subseteq> insert v (set (map snd l))"
    by (rule values_update_subset)
  with Cons show ?case by (cases a) auto
qed

lemma all_names_update_subset:
  "map_of b m = Some me \<Longrightarrow>
   set (all_names (AList.update m (AList.update n e me) b)) \<subseteq> insert e (set (all_names b))"
proof (induction b)
  case Nil then show ?case by simp
next
  case (Cons a b)
  obtain k l where a: "a = (k, l)" by (cases a)
  have sub: "set (map snd (AList.update n e l)) \<subseteq> insert e (set (map snd l))"
    by (rule values_update_subset)
  from Cons a sub show ?case by (cases "k = m") auto
qed

lemma all_names_update_distinct:
  "map_of b m = Some me \<Longrightarrow> distinct (all_names b) \<Longrightarrow> e \<notin> set (all_names b)
   \<Longrightarrow> distinct (all_names (AList.update m (AList.update n e me) b))"
proof (induction b)
  case Nil then show ?case by simp
next
  case (Cons a b)
  obtain k l where a: "a = (k, l)" by (cases a)
  show ?case
  proof (cases "k = m")
    case True
    with Cons.prems a have me: "me = l" by simp
    have sub: "set (map snd (AList.update n e l)) \<subseteq> insert e (set (map snd l))"
      by (rule values_update_subset)
    have d: "distinct (map snd (AList.update n e l))"
      using Cons.prems a by (intro values_update_distinct) auto
    have "set (map snd (AList.update n e l)) \<inter> set (all_names b) = {}"
      using sub Cons.prems a by auto
    with Cons.prems a True me d show ?thesis
      by simp
  next
    case False
    have "set (all_names (AList.update m (AList.update n e me) b)) \<subseteq> insert e (set (all_names b))"
      using Cons.prems a False all_names_update_subset[of b m me n e] by simp
    with Cons a False show ?thesis
      by auto
  qed
qed


lemma lookup_name_update_empty:
  "map_of b m = None \<Longrightarrow> lookup_name (AList.update m [] b) m' n' = lookup_name b m' n'"
  by (simp add: lookup_name_def update_conv')

lemma lookup_name_update:
  "map_of b m = Some me \<Longrightarrow>
   lookup_name (AList.update m (AList.update n v me) b) m' n' =
     (if m' = m \<and> n' = n then Some v else lookup_name b m' n')"
  by (simp add: lookup_name_def update_conv')

lemma call_memo:
  "lookup_name b m n = Some v \<Longrightarrow> v \<noteq> [] \<Longrightarrow>
   getOrSetBundleModuleExportName gfn cc b m n = Some (v, b)"
  by (auto simp: getOrSetBundleModuleExportName_def lookup_name_def split: option.splits)

lemma call_cases:
  assumes "getOrSetBundleModuleExportName gfn cc b m n = Some (v, b')"
  obtains (memo) "lookup_name b m n = Some v" "v \<noteq> []" "b' = b"
  | (fresh) b1 me where
      "lookup_name b m n = None \<or> lookup_name b m n = Some []"
      "map_of b1 m = Some me" "all_names b1 = all_names b"
      "\<And>m' n'. lookup_name b1 m' n' = lookup_name b m' n'"
      "find_name b1 (trial_name gfn cc m n) = Some v"
      "b' = AList.update m (AList.update n v me) b1"
proof (cases "map_of b m")
  case None
  with assms have "find_name (AList.update m [] b) (trial_name gfn cc m n) = Some v"
    and "b' = AList.update m (AList.update n v []) (AList.update m [] b)"
    by (auto simp: getOrSetBundleModuleExportName_def split: option.splits)
  moreover have "map_of (AList.update m [] b) m = Some []" by (simp add: update_conv')
  moreover have "lookup_name b m n = None" using None by (simp add: lookup_name_def)
  ultimately show ?thesis
    using fresh[of "AList.update m [] b" "[]"] None
    by (simp add: all_names_update_empty lookup_name_update_empty)
next
  case (Some me)
  show ?thesis
  proof (cases "map_of me n \<noteq> None \<and> map_of me n \<noteq> Some []")
    case True
    with assms Some show ?thesis
      by (intro memo) (auto simp: getOrSetBundleModuleExportName_def lookup_name_def)
  next
    case False
    with assms Some have "find_name b (trial_name gfn cc m n) = Some v"
      and "b' = AList.update m (AList.update n v me) b"
      by (auto simp: getOrSetBundleModuleExportName_def split: option.splits)
    moreover have "lookup_name b m n = None \<or> lookup_name b m n = Some []"
      using False Some by (auto simp: lookup_name_def)
    ultimately show ?thesis
      using fresh[of b me] Some by simp
  qed
qed

lemma call_lookup:
  assumes "getOrSetBundleModuleExportName gfn cc b m n = Some (v, b')"
  shows "lookup_name b' m n = Some v \<and> v \<noteq> []"
  using assms
proof (cases rule: call_cases)
  case memo then show ?thesis by simp
next
  case (fresh b1 me)
  then show ?thesis using find_name_sound[of b1 _ v] by (simp add: lookup_name_update)
qed

lemma call_frame:
  assumes "getOrSetBundleModuleExportName gfn cc b m n = Some (v, b')"
    and "(m', n') \<noteq> (m, n)"
  shows "lookup_name b' m' n' = lookup_name b m' n'"
  using assms(1)
proof (cases rule: call_cases)
  case memo then show ?thesis by simp
next
  case (fresh b1 me)
  then show ?thesis using assms(2) by (auto simp: lookup_name_update)
qed

lemma call_fresh:
  assumes "getOrSetBundleModuleExportName gfn cc b m n = Some (v, b')"
    and "lookup_name b m n \<noteq> Some v"
  shows "v \<notin> set (all_names b)"
  using assms(1)
proof (cases rule: call_cases)
  case memo then show ?thesis using assms(2) by simp
next
  case (fresh b1 me)
  then show ?thesis using find_name_sound[of b1 _ v] by (simp add: name_free_iff)
qed

lemma call_distinct:
  assumes "getOrSetBundleModuleExportName gfn cc b m n = Some (v, b')"
    and "distinct (all_names b)"
  shows "distinct (all_names b')"
  using assms(1)
proof (cases rule: call_cases)
  case memo then show ?thesis using assms(2) by simp
next
  case (fresh b1 me)
  then show ?thesis using find_name_sound[of b1 _ v] assms(2)
    by (simp add: name_free_iff all_names_update_distinct)
qed

lemma lookup_in_names: "lookup_name b m n = Some v \<Longrightarrow> v \<in> set (all_names b)"
proof (induction b)
  case Nil then show ?case by (simp add: lookup_name_def)
next
  case (Cons a b)
  obtain k l where a: "a = (k, l)" by (cases a)
  show ?case
  proof (cases "k = m")
    case True
    with Cons.prems a have "map_of l n = Some v" by (simp add: lookup_name_def)
    then have "(n, v) \<in> set l" by (rule map_of_SomeD)
    then have "v \<in> set (map snd l)" by force
    with a show ?thesis by simp
  next
    case False
    with Cons a show ?thesis by (simp add: lookup_name_def)
  qed
qed

lemma map_of_values_inj:
  "distinct (map snd l) \<Longrightarrow> map_of l n = Some v \<Longrightarrow> map_of l n' = Some v \<Longrightarrow> n = n'"
proof -
  assume d: "distinct (map snd l)" and a: "map_of l n = Some v" and b: "map_of l n' = Some v"
  from a have "(n, v) \<in> set l" by (rule map_of_SomeD)
  moreover from b have "(n', v) \<in> set l" by (rule map_of_SomeD)
  moreover from d have "inj_on snd (set l)" by (simp add: distinct_map)
  ultimately have "(n, v) = (n', v)" by (intro inj_onD[of snd "set l"]) simp_all
  then show "n = n'" by simp
qed

lemma lookup_inj:
  "distinct (all_names b) \<Longrightarrow> lookup_name b m n = Some v \<Longrightarrow> lookup_name b m' n' = Some v
   \<Longrightarrow> m = m' \<and> n = n'"
proof (induction b)
  case Nil then show ?case by (simp add: lookup_name_def)
next
  case (Cons a b)
  obtain k l where a: "a = (k, l)" by (cases a)
  from Cons.prems(1) a have dl: "distinct (map snd l)" and db: "distinct (all_names b)"
    and disj: "set (map snd l) \<inter> set (all_names b) = {}" by auto
  have inl: "v \<in> set (map snd l)" if "map_of l x = Some v" for x
    using map_of_SomeD[OF that] by force
  show ?case
  proof (cases "k = m"; cases "k = m'")
    assume "k = m" "k = m'"
    with Cons.prems a dl show ?thesis
      by (auto simp: lookup_name_def dest: map_of_values_inj)
  next
    assume "k = m" "k \<noteq> m'"
    with Cons.prems a have "map_of l n = Some v" "lookup_name b m' n' = Some v"
      by (simp_all add: lookup_name_def)
    with inl lookup_in_names disj show ?thesis by blast
  next
    assume "k \<noteq> m" "k = m'"
    with Cons.prems a have "map_of l n' = Some v" "lookup_name b m n = Some v"
      by (simp_all add: lookup_name_def)
    with inl lookup_in_names disj show ?thesis by blast
  next
    assume "k \<noteq> m" "k \<noteq> m'"
    with Cons.prems a have "lookup_name b m n = Some v" "lookup_name b m' n' = Some v"
      by (simp_all add: lookup_name_def)
    with Cons.IH db show ?thesis by blast
  qed
qed


lemma resolve_all_Cons_cases:
  assumes "resolve_all gfn cc b ((m, n) # rs) = Some (ws, b')"
  obtains v b1 vs where
    "getOrSetBundleModuleExportName gfn cc b m n = Some (v, b1)"
    "resolve_all gfn cc b1 rs = Some (vs, b')" "ws = v # vs"
  using assms by (auto split: option.splits)

lemma call_stable:
  assumes "getOrSetBundleModuleExportName gfn cc b m' n' = Some (v', b')"
    and "lookup_name b m n = Some v" and "v \<noteq> []"
  shows "lookup_name b' m n = Some v"
proof (cases "(m, n) = (m', n')")
  case True
  with assms call_memo[OF assms(2,3), of gfn cc] show ?thesis by simp
next
  case False
  with call_frame[OF assms(1), of m n] assms(2) show ?thesis by simp
qed

lemma resolve_all_stable:
  "resolve_all gfn cc b rs = Some (vs, b') \<Longrightarrow> lookup_name b m n = Some v \<Longrightarrow> v \<noteq> []
   \<Longrightarrow> lookup_name b' m n = Some v"
proof (induction rs arbitrary: b vs)
  case Nil then show ?case by simp
next
  case (Cons r rs)
  obtain m' n' where r: "r = (m', n')" by (cases r)
  from Cons.prems(1)[unfolded r] obtain v' b1 vs' where
    c: "getOrSetBundleModuleExportName gfn cc b m' n' = Some (v', b1)"
    and rest: "resolve_all gfn cc b1 rs = Some (vs', b')"
    by (rule resolve_all_Cons_cases)
  from call_stable[OF c Cons.prems(2,3)] Cons.IH[OF rest] Cons.prems(3) show ?case by simp
qed

lemma resolve_all_distinct:
  "resolve_all gfn cc b rs = Some (vs, b') \<Longrightarrow> distinct (all_names b)
   \<Longrightarrow> distinct (all_names b')"
proof (induction rs arbitrary: b vs)
  case Nil then show ?case by simp
next
  case (Cons r rs)
  obtain m' n' where r: "r = (m', n')" by (cases r)
  from Cons.prems(1)[unfolded r] obtain v' b1 vs' where
    c: "getOrSetBundleModuleExportName gfn cc b m' n' = Some (v', b1)"
    and rest: "resolve_all gfn cc b1 rs = Some (vs', b')"
    by (rule resolve_all_Cons_cases)
  from call_distinct[OF c Cons.prems(2)] Cons.IH[OF rest] show ?case by simp
qed

lemma resolve_all_lookup:
  "resolve_all gfn cc b rs = Some (vs, b') \<Longrightarrow>
   length vs = length rs \<and>
   (\<forall>i<length rs. lookup_name b' (fst (rs ! i)) (snd (rs ! i)) = Some (vs ! i) \<and> vs ! i \<noteq> [])"
proof (induction rs arbitrary: b vs)
  case Nil then show ?case by simp
next
  case (Cons r rs)
  obtain m' n' where r: "r = (m', n')" by (cases r)
  from Cons.prems(1)[unfolded r] obtain v' b1 vs' where
    c: "getOrSetBundleModuleExportName gfn cc b m' n' = Some (v', b1)"
    and rest: "resolve_all gfn cc b1 rs = Some (vs', b')"
    and vs: "vs = v' # vs'"
    by (rule resolve_all_Cons_cases)
  from call_lookup[OF c] have h: "lookup_name b1 m' n' = Some v'" "v' \<noteq> []" by simp_all
  from resolve_all_stable[OF rest h] have h': "lookup_name b' m' n' = Some v'" .
  from Cons.IH[OF rest] have ih: "length vs' = length rs"
    "\<And>i. i < length rs \<Longrightarrow> lookup_name b' (fst (rs ! i)) (snd (rs ! i)) = Some (vs' ! i) \<and> vs' ! i \<noteq> []"
    by simp_all
  show ?case
  proof (intro conjI allI impI)
    show "length vs = length (r # rs)" using ih(1) vs by simp
  next
    fix i assume "i < length (r # rs)"
    then show "lookup_name b' (fst ((r # rs) ! i)) (snd ((r # rs) ! i)) = Some (vs ! i)"
      using h' h(2) ih(2) vs r by (cases i) simp_all
  next
    fix i assume "i < length (r # rs)"
    then show "vs ! i \<noteq> []"
      using h' h(2) ih(2) vs r by (cases i) simp_all
  qed
qed


subsection \<open>Uniqueness and stability of the assigned names\<close>

lemma digit_chars:
  "char_of (48::nat) = CHR ''0''" "char_of (49::nat) = CHR ''1''" "char_of (50::nat) = CHR ''2''"
  "char_of (51::nat) = CHR ''3''" "char_of (52::nat) = CHR ''4''" "char_of (53::nat) = CHR ''5''"
  "char_of (54::nat) = CHR ''6''" "char_of (55::nat) = CHR ''7''" "char_of (56::nat) = CHR ''8''"
  "char_of (57::nat) = CHR ''9''"
  by code_simp+

lemmas registry_eval =
  digit_chars getOrSetBundleModuleExportName_def find_name.simps name_free_def trial_name_def
  replace_whole_def sanitize_def is_word_def is_lower_word_def is_digit_def next_trial_def
  has_counter_suffix_def increment_counter_def parseInt_def digits_value_def to_double_def
  finite_or_infinity_def round_to_double_def to_decimal.simps
  strip_extension_def all_names_def lookup_name_def

text \<open>
  C1. Names are unique per bundle. From an export map without a duplicate name, any
  sequence of calls that return leaves an export map without a duplicate name; two
  requests for different (module, export name) pairs got different names; and the name
  a request got is recorded for no other pair. A recorded name is never replaced
  (\<open>resolve_all_stable\<close>), so a name returned by a call was not assigned to another pair
  before that call either.
\<close>

theorem export_names_unique:
  assumes "distinct (all_names b)"
    and "resolve_all getFileName camelCase b rs = Some (vs, b')"
  shows "distinct (all_names b') \<and> length vs = length rs \<and>
         (\<forall>i<length rs. \<forall>j<length rs. rs ! i \<noteq> rs ! j \<longrightarrow> vs ! i \<noteq> vs ! j) \<and>
         (\<forall>i<length rs. \<forall>m n. (m, n) \<noteq> rs ! i \<longrightarrow> lookup_name b' m n \<noteq> Some (vs ! i))"
proof -
  have d: "distinct (all_names b')"
    using resolve_all_distinct[OF assms(2,1)] .
  have l: "length vs = length rs"
    and look: "\<And>i. i < length rs \<Longrightarrow> lookup_name b' (fst (rs ! i)) (snd (rs ! i)) = Some (vs ! i)"
    using resolve_all_lookup[OF assms(2)] by simp_all
  have other: "(m, n) = rs ! i" if "i < length rs" "lookup_name b' m n = Some (vs ! i)" for i m n
    using lookup_inj[OF d that(2) look[OF that(1)]] by (simp add: prod_eq_iff)
  have inj: "rs ! i = rs ! j" if "i < length rs" "j < length rs" "vs ! i = vs ! j" for i j
    using lookup_inj[OF d look[OF that(1)]] look[OF that(2)] that(3) by (simp add: prod_eq_iff)
  from d l other inj show ?thesis by blast
qed

theorem export_names_unique_witness:
  "distinct (all_names []) \<and>
   resolve_all (\<lambda>u. u) (\<lambda>s. s) []
     [(''a.js'', ''foo''), (''b.js'', ''foo''), (''a.js'', ''foo''), (''c.js'', ''bar'')]
     = Some ([''foo'', ''foo$1'', ''foo'', ''bar''],
         [(''a.js'', [(''foo'', ''foo'')]), (''b.js'', [(''foo'', ''foo$1'')]),
          (''c.js'', [(''bar'', ''bar'')])]) \<and>
   distinct (all_names [(''a.js'', [(''foo'', ''foo'')]), (''b.js'', [(''foo'', ''foo$1'')]),
          (''c.js'', [(''bar'', ''bar'')])]) \<and>
   lookup_name [(''a.js'', [(''foo'', ''foo'')]), (''b.js'', [(''foo'', ''foo$1'')]),
          (''c.js'', [(''bar'', ''bar'')])] ''a.js'' ''foo'' \<noteq> Some ''foo$1''"
proof -
  have h1: "distinct (all_names [])" by (simp add: all_names_def)
  have h2: "resolve_all (\<lambda>u. u) (\<lambda>s. s) []
     [(''a.js'', ''foo''), (''b.js'', ''foo''), (''a.js'', ''foo''), (''c.js'', ''bar'')]
     = Some ([''foo'', ''foo$1'', ''foo'', ''bar''],
         [(''a.js'', [(''foo'', ''foo'')]), (''b.js'', [(''foo'', ''foo$1'')]),
          (''c.js'', [(''bar'', ''bar'')])])"
    by (simp add: registry_eval)
  from export_names_unique[OF h1 h2] have
    "distinct (all_names [(''a.js'', [(''foo'', ''foo'')]), (''b.js'', [(''foo'', ''foo$1'')]),
          (''c.js'', [(''bar'', ''bar'')])])"
    and "\<forall>i<4. \<forall>m n. (m, n) \<noteq> [(''a.js'', ''foo''), (''b.js'', ''foo''), (''a.js'', ''foo''), (''c.js'', ''bar'')] ! i
           \<longrightarrow> lookup_name [(''a.js'', [(''foo'', ''foo'')]), (''b.js'', [(''foo'', ''foo$1'')]),
          (''c.js'', [(''bar'', ''bar'')])] m n \<noteq> Some ([''foo'', ''foo$1'', ''foo'', ''bar''] ! i)"
    by simp_all
  from this(1) this(2)[rule_format, of 1 "''a.js''" "''foo''"] h1 h2 show ?thesis by simp
qed

text \<open>
  C2. Resolution is idempotent. When a call for (module, export name) returned a name, a
  later call with the same arguments, after any other calls on the bundle that returned,
  returns the same name and leaves the whole export map as it found it.
\<close>

theorem export_name_stable:
  assumes "getOrSetBundleModuleExportName getFileName camelCase b moduleUrl name = Some (v, b1)"
    and "resolve_all getFileName camelCase b1 rs = Some (vs, b2)"
  shows "getOrSetBundleModuleExportName getFileName camelCase b2 moduleUrl name = Some (v, b2)
         \<and> lookup_name b2 moduleUrl name = lookup_name b1 moduleUrl name"
proof -
  from call_lookup[OF assms(1)] have h: "lookup_name b1 moduleUrl name = Some v" "v \<noteq> []"
    by simp_all
  from resolve_all_stable[OF assms(2) h] have "lookup_name b2 moduleUrl name = Some v" .
  with h call_memo[of b2 moduleUrl name v] show ?thesis by simp
qed

theorem export_name_stable_witness:
  "getOrSetBundleModuleExportName (\<lambda>u. u) (\<lambda>s. s) [] ''a.js'' ''foo''
     = Some (''foo'', [(''a.js'', [(''foo'', ''foo'')])]) \<and>
   resolve_all (\<lambda>u. u) (\<lambda>s. s) [(''a.js'', [(''foo'', ''foo'')])]
     [(''b.js'', ''foo''), (''a.js'', ''bar'')]
     = Some ([''foo$1'', ''bar''],
         [(''a.js'', [(''foo'', ''foo''), (''bar'', ''bar'')]), (''b.js'', [(''foo'', ''foo$1'')])]) \<and>
   getOrSetBundleModuleExportName (\<lambda>u. u) (\<lambda>s. s)
     [(''a.js'', [(''foo'', ''foo''), (''bar'', ''bar'')]), (''b.js'', [(''foo'', ''foo$1'')])]
     ''a.js'' ''foo''
     = Some (''foo'',
         [(''a.js'', [(''foo'', ''foo''), (''bar'', ''bar'')]), (''b.js'', [(''foo'', ''foo$1'')])])"
proof -
  have h1: "getOrSetBundleModuleExportName (\<lambda>u. u) (\<lambda>s. s) [] ''a.js'' ''foo''
     = Some (''foo'', [(''a.js'', [(''foo'', ''foo'')])])"
    by (simp add: registry_eval)
  have h2: "resolve_all (\<lambda>u. u) (\<lambda>s. s) [(''a.js'', [(''foo'', ''foo'')])]
     [(''b.js'', ''foo''), (''a.js'', ''bar'')]
     = Some ([''foo$1'', ''bar''],
         [(''a.js'', [(''foo'', ''foo''), (''bar'', ''bar'')]), (''b.js'', [(''foo'', ''foo$1'')])])"
    by (simp add: registry_eval)
  from export_name_stable[OF h1 h2] h1 h2 show ?thesis by simp
qed


subsection \<open>The counter suffix and the loop\<close>






lemma is_digit_is_word: "is_digit c \<Longrightarrow> is_word c"
  by (simp add: is_word_def is_lower_word_def)



























lemma to_decimal_21: "to_decimal 21 = ''21''"
  by (simp add: to_decimal.simps digit_chars)

lemma magnitude_1e21: "decimal_magnitude (10 ^ 21) 1 0 = (10 ^ 22, 22)"
  by (simp add: decimal_magnitude.simps)

lemma ulp_1e22: "double_ulp (10 ^ 22) 1 = 2 ^ 21"
  by (simp add: double_ulp.simps)

lemma ulp_1e21: "double_ulp (10 ^ 21) 1 = 2 ^ 17"
  by (simp add: double_ulp.simps)

lemma ulp_2e21: "double_ulp (2 * 10 ^ 21) 1 = 2 ^ 18"
  by (simp add: double_ulp.simps)

lemma ulp_1e21': "double_ulp (10 ^ 21 + 1) 1 = 2 ^ 17"
  by (simp add: double_ulp.simps)

lemma ulp_1e21'': "double_ulp (10 ^ 21 - 1) 1 = 2 ^ 17"
  by (simp add: double_ulp.simps)

lemma round_1e21: "round_to_double (10 ^ 21 - 1) = 10 ^ 21" "round_to_double (10 ^ 21 + 1) = 10 ^ 21"
  "round_to_double (10 ^ 21) = 10 ^ 21" "round_to_double (10 ^ 22) = 10 ^ 22"
  "round_to_double (2 * 10 ^ 21) = 2 * 10 ^ 21"
  using ulp_1e21 ulp_1e21' ulp_1e21'' ulp_1e22 ulp_2e21
  by (simp_all add: round_to_double_def round_at_def)

lemma string_1e21: "number_to_string (Finite (10 ^ 21)) = ''1e+21''"
proof -
  have c: "choose_digits (10 ^ 21) (10 ^ 21) 10 = Some 1"
    using round_1e21 by (simp add: choose_digits_def nearest_digits_def valid_digits_def)
  have "shortest_digits (10 ^ 21) (10 ^ 22) 10 = (1, 10 ^ 21)"
    by (subst shortest_digits.simps) (use c in simp)
  then have "scientific_digits (10 ^ 21) = (1, 10 ^ 21, 22)"
    using round_1e21 magnitude_1e21 by (simp add: scientific_digits_def)
  then show ?thesis
    by (simp add: to_decimal_21) (simp add: to_decimal.simps digit_chars)
qed

lemma increment_1e21: "number_to_string (add_one (parseInt ''999999999999999999999'')) = ''1e+21''"
proof -
  have "digits_value ''999999999999999999999'' = 10 ^ 21 - 1" by (simp add: digits_value_def)
  then have "parseInt ''999999999999999999999'' = Finite (10 ^ 21)"
    using round_1e21 by (simp add: parseInt_def to_double_def finite_or_infinity_def)
  moreover have "add_one (Finite (10 ^ 21)) = Finite (10 ^ 21)"
    using round_1e21 by (simp add: to_double_def finite_or_infinity_def)
  ultimately show ?thesis using string_1e21 by simp
qed

lemma next_trial_1e21: "next_trial ''foo$999999999999999999999'' = ''foo$1e+21''"
  using increment_1e21
  by (simp add: next_trial_def has_counter_suffix_def increment_counter_def is_digit_def)






text \<open>
  C3. The returned name is not always a bare identifier. Two modules of a bundle export
  \<open>foo$999999999999999999999\<close>, a bare identifier. The second request finds the name
  taken and adds one to the number after \<open>$\<close>: \<open>parseInt\<close> gives the double \<open>10^21\<close>, adding
  one leaves it, and its text in the template literal is \<open>1e+21\<close>. The call returns
  \<open>foo$1e+21\<close>, which holds a \<open>+\<close>.
\<close>

theorem assigned_name_not_identifier:
  "resolve_all (\<lambda>u. u) (\<lambda>s. s) []
       [(''a.js'', ''foo$999999999999999999999''), (''b.js'', ''foo$999999999999999999999'')]
     = Some ([''foo$999999999999999999999'', ''foo$1e+21''],
         [(''a.js'', [(''foo$999999999999999999999'', ''foo$999999999999999999999'')]),
          (''b.js'', [(''foo$999999999999999999999'', ''foo$1e+21'')])]) \<and>
   valid_identifier ''foo$999999999999999999999'' \<and>
   \<not> valid_identifier ''foo$1e+21''"
proof -
  have t: "trial_name (\<lambda>u. u) (\<lambda>s. s) m ''foo$999999999999999999999'' = ''foo$999999999999999999999''"
    for m
    by (simp add: trial_name_def replace_whole_def sanitize_def is_word_def is_lower_word_def
        is_digit_def)
  have 1: "resolve_all (\<lambda>u. u) (\<lambda>s. s) []
       [(''a.js'', ''foo$999999999999999999999''), (''b.js'', ''foo$999999999999999999999'')]
     = Some ([''foo$999999999999999999999'', ''foo$1e+21''],
         [(''a.js'', [(''foo$999999999999999999999'', ''foo$999999999999999999999'')]),
          (''b.js'', [(''foo$999999999999999999999'', ''foo$1e+21'')])])"
    by (simp add: getOrSetBundleModuleExportName_def t find_name.simps name_free_def
        next_trial_1e21)
  have 2: "valid_identifier ''foo$999999999999999999999''"
    by (simp add: valid_identifier_def is_identifier_char_def starts_with_digit_def is_word_def
        is_lower_word_def is_digit_def)
  have 3: "\<not> valid_identifier ''foo$1e+21''"
    by (simp add: valid_identifier_def is_identifier_char_def starts_with_digit_def is_word_def
        is_lower_word_def is_digit_def)
  from 1 2 3 show ?thesis by simp
qed


section \<open>Properties of the project converter\<close>

subsection \<open>The results\<close>

lemma upd_all_simps [simp]:
  "upd_all res [] = res"
  "upd_all res ((k, v) # es) = upd_all (AList.update k v res) es"
  by (simp_all add: upd_all_def)

lemma upd_all_append: "upd_all res (es @ es') = upd_all (upd_all res es) es'"
  by (simp add: upd_all_def)

lemma collect_results_step:
  "collect_results (r # rest) res = collect_results rest (upd_all res (entries_of r))"
  by (cases "output' r") (simp_all add: entries_of_def Let_def)

lemma collect_results_entries:
  "collect_results rs res = upd_all res (concat (map entries_of rs))"
proof (induction rs arbitrary: res)
  case Nil then show ?case by simp
next
  case (Cons r rs)
  show ?case unfolding collect_results_step Cons.IH by (simp add: upd_all_append)
qed

lemma map_of_upd_all: "map_of (upd_all res es) = map_of (rev es @ res)"
proof (induction es arbitrary: res)
  case Nil then show ?case by simp
next
  case (Cons e es)
  obtain k v where e: "e = (k, v)" by (cases e)
  show ?case unfolding e by (simp add: Cons.IH update_conv' map_add_def fun_eq_iff split: option.splits)
qed

lemma length_entries_of: "length (entries_of r) \<le> 2"
  by (cases "output' r") (simp_all add: entries_of_def)

lemma length_update_le: "length (AList.update k v al) \<le> Suc (length al)"
  by (induction al) auto

lemma length_upd_all: "length (upd_all res es) \<le> length res + length es"
proof (induction es arbitrary: res)
  case Nil then show ?case by simp
next
  case (Cons e es)
  obtain k v where e: "e = (k, v)" by (cases e)
  have "length (upd_all (AList.update k v res) es) \<le> length (AList.update k v res) + length es"
    by (rule Cons.IH)
  also have "\<dots> \<le> Suc (length res) + length es" using length_update_le[of k v res] by simp
  finally show ?case unfolding e by simp
qed

lemma length_concat_entries: "length (concat (map entries_of rs)) \<le> 2 * length rs"
proof (induction rs)
  case Nil then show ?case by simp
next
  case (Cons r rs)
  with length_entries_of[of r] show ?case by simp
qed

lemma tombstone_keys:
  assumes "(p, None) \<in> set (concat (map entries_of rs))"
  shows "\<exists>r\<in>set rs. originalUrl r = p"
proof -
  from assms obtain r where r: "r \<in> set rs" "(p, None) \<in> set (entries_of r)" by auto
  then have "originalUrl r = p"
    by (cases "output' r") (auto simp: entries_of_def split: if_splits)
  with r show ?thesis by blast
qed

lemma content_keys:
  assumes "(p, Some c) \<in> set (concat (map entries_of rs))"
  shows "\<exists>r\<in>set rs. convertedFilePath r = p \<and> output' r = Some c \<and> originalUrl r \<notin> set excludeFromResults"
proof -
  from assms obtain r where r: "r \<in> set rs" "(p, Some c) \<in> set (entries_of r)" by auto
  then have "convertedFilePath r = p \<and> output' r = Some c \<and> originalUrl r \<notin> set excludeFromResults"
    by (cases "output' r") (auto simp: entries_of_def split: if_splits)
  with r show ?thesis by blast
qed

lemma cache_ok_later:
  assumes "cache_ok (xs @ (k, r) # ys)" and "r' \<in> set (map snd ys)"
  shows "originalUrl r' \<noteq> originalUrl r"
proof -
  from assms(2) obtain k' where k': "(k', r') \<in> set ys" by auto
  from assms(1) have b: "\<forall>e\<in>set (xs @ (k, r) # ys). originalUrl (snd e) = fst e"
    unfolding cache_ok_def list_all_iff by (rule conjunct2)
  from bspec[OF b, of "(k, r)"] have 1: "originalUrl r = k" by simp
  from bspec[OF b, of "(k', r')"] k' have 2: "originalUrl r' = k'" by simp
  from assms(1) have "distinct (map fst (xs @ (k, r) # ys))"
    unfolding cache_ok_def by (rule conjunct1)
  then have "k \<notin> set (map fst ys)" by simp
  moreover from k' have "k' \<in> set (map fst ys)" by (metis fst_conv image_eqI list.set_map)
  ultimately have "k' \<noteq> k" by blast
  with 1 2 show ?thesis by simp
qed

lemma store_keys: "fst ` set (store cache r) = insert (originalUrl r) (fst ` set cache)"
  by (simp add: store_def dom_update)

lemma cache_ok_store: "cache_ok cache \<Longrightarrow> cache_ok (store cache r)"
proof -
  assume a: "cache_ok cache"
  have "list_all (\<lambda>e. originalUrl (snd e) = fst e) (AList.update (originalUrl r) r cache)"
    if "list_all (\<lambda>e. originalUrl (snd e) = fst e) cache" for cache
    using that by (induction cache) auto
  with a show ?thesis by (simp add: cache_ok_def store_def distinct_update)
qed

lemma cache_ok_foldl_store: "cache_ok cache \<Longrightarrow> cache_ok (foldl store cache rs)"
proof (induction rs arbitrary: cache)
  case Nil then show ?case by simp
next
  case (Cons r rs)
  from Cons.IH[OF cache_ok_store[OF Cons.prems]] show ?case by simp
qed

lemma map_of_foldl_store:
  "map_of (foldl store cache rs) = map_of (rev (map (\<lambda>r. (originalUrl r, r)) rs) @ cache)"
proof (induction rs arbitrary: cache)
  case Nil then show ?case by simp
next
  case (Cons r rs)
  have "map_of (foldl store cache (r # rs))
      = map_of (rev (map (\<lambda>r. (originalUrl r, r)) rs) @ store cache r)"
    using Cons.IH[of "store cache r"] by simp
  also have "\<dots> = map_of (rev (map (\<lambda>r. (originalUrl r, r)) (r # rs)) @ cache)"
    by (simp add: store_def update_conv' map_add_def fun_eq_iff split: option.splits)
  finally show ?case .
qed

lemma keys_foldl_store_present:
  "originalUrl ` set rs \<subseteq> fst ` set cache \<Longrightarrow> map fst (foldl store cache rs) = map fst cache"
proof (induction rs arbitrary: cache)
  case Nil then show ?case by simp
next
  case (Cons r rs)
  have k: "map fst (store cache r) = map fst cache"
    using Cons.prems by (auto simp: store_def update_keys)
  then have "fst ` set (store cache r) = fst ` set cache"
    by (metis list.set_map)
  with Cons.prems have "originalUrl ` set rs \<subseteq> fst ` set (store cache r)" by simp
  from Cons.IH[OF this] k show ?case by simp
qed

lemma keys_foldl_store: "originalUrl ` set rs \<subseteq> fst ` set (foldl store cache rs)"
proof (induction rs arbitrary: cache)
  case Nil then show ?case by simp
next
  case (Cons r rs)
  have mono: "fst ` set c \<subseteq> fst ` set (foldl store c rs)" for c
  proof (induction rs arbitrary: c)
    case Nil then show ?case by simp
  next
    case (Cons a rs)
    have "fst ` set c \<subseteq> fst ` set (store c a)" by (auto simp: store_keys)
    also have "\<dots> \<subseteq> fst ` set (foldl store (store c a) rs)" by (rule Cons.IH)
    finally show ?case by simp
  qed
  have "originalUrl r \<in> fst ` set (store cache r)" by (simp add: store_keys)
  with mono[of "store cache r"] Cons.IH[of "store cache r"] show ?case by auto
qed

lemma alist_eqI:
  "map fst xs = map fst ys \<Longrightarrow> distinct (map fst xs) \<Longrightarrow> map_of xs = map_of ys \<Longrightarrow> xs = ys"
proof (induction xs arbitrary: ys)
  case Nil then show ?case by simp
next
  case (Cons x xs)
  then obtain y ys' where ys: "ys = y # ys'" by (cases ys) auto
  obtain k v where x: "x = (k, v)" by (cases x)
  obtain k' v' where y: "y = (k', v')" by (cases y)
  from Cons.prems(1) ys x y have kk: "k' = k" and keys: "map fst xs = map fst ys'" by simp_all
  from fun_cong[OF Cons.prems(3), of k] ys x y kk have vv: "v' = v" by simp
  from Cons.prems(2) x have kx: "k \<notin> fst ` set xs" and d: "distinct (map fst xs)" by auto
  have "map_of xs = map_of ys'"
  proof
    fix z
    show "map_of xs z = map_of ys' z"
    proof (cases "z = k")
      case True
      from kx have "map_of xs k = None" by (simp add: map_of_eq_None_iff)
      moreover from kx keys have "k \<notin> fst ` set ys'" by (metis list.set_map)
      then have "map_of ys' k = None" by (simp add: map_of_eq_None_iff)
      ultimately show ?thesis using True by simp
    next
      case False
      from fun_cong[OF Cons.prems(3), of z] ys x y kk vv False show ?thesis by simp
    qed
  qed
  from Cons.IH[OF keys d this] ys x y kk vv show ?case by simp
qed

lemma foldl_store_twice:
  assumes "cache_ok cache"
  shows "foldl store (foldl store cache rs) rs = foldl store cache rs"
proof (rule alist_eqI)
  show "map fst (foldl store (foldl store cache rs) rs) = map fst (foldl store cache rs)"
    by (rule keys_foldl_store_present[OF keys_foldl_store])
  show "distinct (map fst (foldl store (foldl store cache rs) rs))"
    using cache_ok_foldl_store[OF cache_ok_foldl_store[OF assms]] by (simp add: cache_ok_def)
  show "map_of (foldl store (foldl store cache rs) rs) = map_of (foldl store cache rs)"
    by (simp add: map_of_foldl_store map_add_def fun_eq_iff split: option.splits)
qed

lemma store_twice: "store (store cache r) r = store cache r"
  by (simp add: store_def)


lemmas converter_eval =
  convertDocument_def example_env_def new_converter_def store_def html_doc_def js_doc_def
  assert_message_def module_record_def getResults_def excludeFromResults_def entries_of_def
  cache_ok_def

text \<open>
  C8. \<open>getResults\<close> goes through the cached records once, in cache order, and the result
  is what writing the entries of the records, one record after the other, leaves: a
  later write to a path replaces an earlier one. A record in the exclusion set has no
  entry, whatever it holds; any other record has the tombstone \<open>(originalUrl, None)\<close>
  exactly when its delete flag is set and the entry \<open>(convertedFilePath, content)\<close>
  exactly when it has output: none, one or two entries.
\<close>

theorem getResults_entries:
  "getResults this = upd_all [] (concat (map entries_of (map snd (results this)))) \<and>
   map_of (getResults this) = map_of (rev (concat (map entries_of (map snd (results this))))) \<and>
   length (getResults this) \<le> 2 * length (results this) \<and>
   length (entries_of r) \<le> 2 \<and>
   (originalUrl r \<in> set excludeFromResults \<longrightarrow> entries_of r = []) \<and>
   (originalUrl r \<notin> set excludeFromResults \<longrightarrow>
      ((originalUrl r, None) \<in> set (entries_of r) \<longleftrightarrow> deleteOriginal r) \<and>
      (\<forall>p content. (p, Some content) \<in> set (entries_of r)
          \<longleftrightarrow> p = convertedFilePath r \<and> output' r = Some content))"
proof -
  have a: "getResults this = upd_all [] (concat (map entries_of (map snd (results this))))"
    by (simp add: getResults_def collect_results_entries)
  have b: "map_of (getResults this) = map_of (rev (concat (map entries_of (map snd (results this)))))"
    unfolding a map_of_upd_all by simp
  have c: "length (getResults this) \<le> 2 * length (results this)"
    unfolding a using length_upd_all[of "[]" "concat (map entries_of (map snd (results this)))"]
      length_concat_entries[of "map snd (results this)"] by simp
  have d: "originalUrl r \<in> set excludeFromResults \<longrightarrow> entries_of r = []"
    by (simp add: entries_of_def)
  have e: "originalUrl r \<notin> set excludeFromResults \<longrightarrow>
      ((originalUrl r, None) \<in> set (entries_of r) \<longleftrightarrow> deleteOriginal r) \<and>
      (\<forall>p content. (p, Some content) \<in> set (entries_of r)
          \<longleftrightarrow> p = convertedFilePath r \<and> output' r = Some content)"
    by (cases "output' r") (auto simp: entries_of_def)
  from a b c d e length_entries_of[of r] show ?thesis by blast
qed



theorem getResults_entries_witness:
  "getResults \<lparr>scanner = (), results =
      [(''shadycss/entrypoints/apply-shim.js'',
          module_record ''shadycss/entrypoints/apply-shim.js'' ''shadycss/entrypoints/apply-shim.js''
            False (Some ''shim'')),
       (''old.html'', module_record ''old.html'' ''old.html'' True None),
       (''el.html'', module_record ''el.html'' ''el.js'' True (Some ''export {}''))],
      console = []\<rparr>
     = [(''old.html'', None), (''el.html'', None), (''el.js'', Some ''export {}'')] \<and>
   entries_of (module_record ''shadycss/entrypoints/apply-shim.js''
     ''shadycss/entrypoints/apply-shim.js'' False (Some ''shim'')) = [] \<and>
   entries_of (module_record ''el.html'' ''el.js'' True (Some ''export {}''))
     = [(''el.html'', None), (''el.js'', Some ''export {}'')]"
proof -
  let ?pc = "\<lparr>scanner = (), results =
      [(''shadycss/entrypoints/apply-shim.js'',
          module_record ''shadycss/entrypoints/apply-shim.js'' ''shadycss/entrypoints/apply-shim.js''
            False (Some ''shim'')),
       (''old.html'', module_record ''old.html'' ''old.html'' True None),
       (''el.html'', module_record ''el.html'' ''el.js'' True (Some ''export {}''))],
      console = []\<rparr>"
  have e1: "originalUrl (module_record ''shadycss/entrypoints/apply-shim.js''
     ''shadycss/entrypoints/apply-shim.js'' False (Some ''shim'')) \<in> set excludeFromResults"
    by (simp add: module_record_def excludeFromResults_def)
  have e2: "entries_of (module_record ''el.html'' ''el.js'' True (Some ''export {}''))
     = [(''el.html'', None), (''el.js'', Some ''export {}'')]"
    by (simp add: converter_eval)
  have g: "upd_all [] (concat (map entries_of (map snd (results ?pc))))
     = [(''old.html'', None), (''el.html'', None), (''el.js'', Some ''export {}'')]"
    by (simp add: converter_eval)
  from getResults_entries[of ?pc "module_record ''shadycss/entrypoints/apply-shim.js''
     ''shadycss/entrypoints/apply-shim.js'' False (Some ''shim'')"] e1
  have "getResults ?pc = upd_all [] (concat (map entries_of (map snd (results ?pc))))"
    and "entries_of (module_record ''shadycss/entrypoints/apply-shim.js''
     ''shadycss/entrypoints/apply-shim.js'' False (Some ''shim'')) = []"
    by blast+
  with g e2 show ?thesis by simp
qed

text \<open>
  C10 as stated fails for a record in the exclusion set: it is skipped, so with the delete
  flag, output and equal paths the result holds nothing at its path.
\<close>

theorem tombstone_before_content_counterexample:
  "getResults \<lparr>scanner = (), results =
      [(''shadycss/entrypoints/apply-shim.js'',
          module_record ''shadycss/entrypoints/apply-shim.js'' ''shadycss/entrypoints/apply-shim.js''
            True (Some ''shim''))],
      console = []\<rparr> = [] \<and>
   map_of (getResults \<lparr>scanner = (), results =
      [(''shadycss/entrypoints/apply-shim.js'',
          module_record ''shadycss/entrypoints/apply-shim.js'' ''shadycss/entrypoints/apply-shim.js''
            True (Some ''shim''))],
      console = []\<rparr>) ''shadycss/entrypoints/apply-shim.js'' \<noteq> Some (Some ''shim'')"
  by (simp add: converter_eval)

text \<open>
  C10, as amended. For a cached record outside the exclusion set with the delete flag
  and output, the loop writes the tombstone first and the content second. So when its
  converted path equals its original path, the result never holds the tombstone at
  that path, it holds content there; and it holds this record's content unless another
  record converts to the same path. The cache is one the converter builds: every
  record under its own original URL.
\<close>

theorem tombstone_before_content:
  assumes "cache_ok (results this)"
    and "(k, r) \<in> set (results this)"
    and "originalUrl r \<notin> set excludeFromResults"
    and "deleteOriginal r" and "output' r = Some content"
  shows "(\<forall>rest res. collect_results (r # rest) res =
            collect_results rest
              (AList.update (convertedFilePath r) (Some content) (AList.update (originalUrl r) None res))) \<and>
         (convertedFilePath r = originalUrl r \<longrightarrow>
            map_of (getResults this) (originalUrl r) \<noteq> Some None \<and>
            (\<exists>c. map_of (getResults this) (originalUrl r) = Some (Some c)) \<and>
            ((\<forall>r'\<in>set (map snd (results this)). r' \<noteq> r \<longrightarrow> convertedFilePath r' \<noteq> originalUrl r)
               \<longrightarrow> map_of (getResults this) (originalUrl r) = Some (Some content)))"
proof -
  have step: "collect_results (r # rest) res =
          collect_results rest
            (AList.update (convertedFilePath r) (Some content) (AList.update (originalUrl r) None res))"
    for rest res
    using assms(3,4) by (simp add: Let_def assms(5))
  have final: "map_of (getResults this) (originalUrl r) \<noteq> Some None \<and>
      (\<exists>c. map_of (getResults this) (originalUrl r) = Some (Some c)) \<and>
      ((\<forall>r'\<in>set (map snd (results this)). r' \<noteq> r \<longrightarrow> convertedFilePath r' \<noteq> originalUrl r)
         \<longrightarrow> map_of (getResults this) (originalUrl r) = Some (Some content))"
    if same: "convertedFilePath r = originalUrl r"
  proof -
    let ?p = "originalUrl r"
    from assms(2) obtain xs ys where split: "results this = xs @ (k, r) # ys"
      by (meson split_list)
    let ?E = "\<lambda>l. concat (map entries_of (map snd l))"
    have ok: "cache_ok (xs @ (k, r) # ys)" using assms(1) split by simp
    have er: "entries_of r = [(?p, None), (?p, Some content)]"
      using assms(3,4) same by (simp add: entries_of_def assms(5))
    have e: "concat (map entries_of (map snd (results this)))
        = ?E xs @ [(?p, None), (?p, Some content)] @ ?E ys"
      by (simp add: split er)
    have "map_of (getResults this) = map_of (rev (?E xs @ [(?p, None), (?p, Some content)] @ ?E ys))"
      by (simp only: getResults_def collect_results_entries map_of_upd_all e append_Nil2)
    then have m: "map_of (getResults this) = map_of (rev (?E ys) @ [(?p, Some content), (?p, None)] @ rev (?E xs))"
      by simp
    have no_tomb: "(?p, None) \<notin> set (?E ys)"
    proof
      assume "(?p, None) \<in> set (?E ys)"
      from tombstone_keys[OF this] obtain r' where "r' \<in> set (map snd ys)" "originalUrl r' = ?p"
        by blast
      with cache_ok_later[OF ok] show False by blast
    qed
    have later: "map_of (rev (?E ys)) ?p \<noteq> Some None"
    proof
      assume "map_of (rev (?E ys)) ?p = Some None"
      from map_of_SomeD[OF this] no_tomb show False by simp
    qed
    have val: "map_of (getResults this) ?p =
        (case map_of (rev (?E ys)) ?p of None \<Rightarrow> Some (Some content) | Some x \<Rightarrow> Some x)"
      unfolding m by (simp add: map_add_def split: option.splits)
    have g1: "map_of (getResults this) ?p \<noteq> Some None"
      using val later by (auto split: option.splits)
    have g2: "\<exists>c. map_of (getResults this) ?p = Some (Some c)"
      using val later by (cases "map_of (rev (?E ys)) ?p") auto
    have g3: "map_of (getResults this) ?p = Some (Some content)"
      if others: "\<forall>r'\<in>set (map snd (results this)). r' \<noteq> r \<longrightarrow> convertedFilePath r' \<noteq> originalUrl r"
    proof -
      have "map_of (rev (?E ys)) ?p = None"
      proof (rule ccontr)
        assume "map_of (rev (?E ys)) ?p \<noteq> None"
        then obtain x where x: "map_of (rev (?E ys)) ?p = Some x" by blast
        with later obtain c where "x = Some c" by (cases x) auto
        with map_of_SomeD[OF x] have "(?p, Some c) \<in> set (?E ys)" by simp
        from content_keys[OF this] obtain r' where r': "r' \<in> set (map snd ys)" "convertedFilePath r' = ?p"
          by blast
        from cache_ok_later[OF ok r'(1)] have "r' \<noteq> r" by blast
        moreover from r'(1) have "r' \<in> set (map snd (results this))" by (auto simp: split)
        ultimately show False using others r'(2) by blast
      qed
      then show ?thesis using val by simp
    qed
    from g3 have g3': "(\<forall>r'\<in>set (map snd (results this)). r' \<noteq> r \<longrightarrow> convertedFilePath r' \<noteq> originalUrl r)
         \<longrightarrow> map_of (getResults this) (originalUrl r) = Some (Some content)"
      by (rule impI)
    show ?thesis by (intro conjI, rule g1, rule g2, rule g3')
  qed
  have imp: "convertedFilePath r = originalUrl r \<longrightarrow>
      map_of (getResults this) (originalUrl r) \<noteq> Some None \<and>
      (\<exists>c. map_of (getResults this) (originalUrl r) = Some (Some c)) \<and>
      ((\<forall>r'\<in>set (map snd (results this)). r' \<noteq> r \<longrightarrow> convertedFilePath r' \<noteq> originalUrl r)
         \<longrightarrow> map_of (getResults this) (originalUrl r) = Some (Some content))"
    using final by (rule impI)
  show ?thesis by (intro conjI allI, rule step, rule imp)
qed


theorem tombstone_before_content_witness:
  "cache_ok [(''a.js'', module_record ''a.js'' ''a.js'' True (Some ''new'')),
             (''b.html'', module_record ''b.html'' ''b.js'' True (Some ''b''))] \<and>
   getResults \<lparr>scanner = (), results =
       [(''a.js'', module_record ''a.js'' ''a.js'' True (Some ''new'')),
        (''b.html'', module_record ''b.html'' ''b.js'' True (Some ''b''))], console = []\<rparr>
     = [(''a.js'', Some ''new''), (''b.html'', None), (''b.js'', Some ''b'')] \<and>
   map_of (getResults \<lparr>scanner = (), results =
       [(''a.js'', module_record ''a.js'' ''a.js'' True (Some ''new'')),
        (''b.html'', module_record ''b.html'' ''b.js'' True (Some ''b''))], console = []\<rparr>) ''a.js''
     = Some (Some ''new'')"
proof -
  let ?r = "module_record ''a.js'' ''a.js'' True (Some ''new'')"
  let ?c = "[(''a.js'', ?r), (''b.html'', module_record ''b.html'' ''b.js'' True (Some ''b''))]"
  let ?pc = "\<lparr>scanner = (), results = ?c, console = []\<rparr>"
  have h1: "cache_ok (results ?pc)" by (simp add: converter_eval)
  have h2: "(''a.js'', ?r) \<in> set (results ?pc)" by simp
  have h3: "originalUrl ?r \<notin> set excludeFromResults" by (simp add: converter_eval)
  have h4: "deleteOriginal ?r" by (simp add: converter_eval)
  have h5: "output' ?r = Some ''new''" by (simp add: converter_eval)
  have h6: "convertedFilePath ?r = originalUrl ?r" by (simp add: converter_eval)
  have h7: "\<forall>r'\<in>set (map snd (results ?pc)). r' \<noteq> ?r \<longrightarrow> convertedFilePath r' \<noteq> originalUrl ?r"
    by (simp add: converter_eval)
  have g: "getResults ?pc = [(''a.js'', Some ''new''), (''b.html'', None), (''b.js'', Some ''b'')]"
    by (simp add: converter_eval)
  from tombstone_before_content[OF h1 h2 h3 h4 h5] h6 h7
  have "map_of (getResults ?pc) (originalUrl ?r) = Some (Some ''new'')" by blast
  then have "map_of (getResults ?pc) ''a.js'' = Some (Some ''new'')"
    by (simp add: module_record_def)
  with h1 g show ?thesis by simp
qed

subsection \<open>Converting a document\<close>

text \<open>
  C7. When the scan has no classification for the document's URL, \<open>convertDocument\<close>
  throws an error whose message ends in that URL, the cache is as it was before the
  call, and the loop of \<open>convertPackage\<close> ends with the same error.
\<close>

theorem convertDocument_not_found:
  assumes "files (scanner_getResults env (scanDocument env (scanner this) doc)) (getDocumentUrl env doc) = None"
  shows "\<exists>this'. convertDocument env this doc
           = Inl (Error (''File not found during scan: '' @ getDocumentUrl env doc), this')
         \<and> results this' = results this
         \<and> convert_each env this (doc # docs)
           = Inl (Error (''File not found during scan: '' @ getDocumentUrl env doc), this')"
  using assms by (auto simp: convertDocument_def Let_def)

theorem convertDocument_not_found_witness:
  "files (scanner_getResults (example_env (\<lambda>u. None))
      (scanDocument (example_env (\<lambda>u. None)) (scanner new_converter) (html_doc ''a.html'')))
      (getDocumentUrl (example_env (\<lambda>u. None)) (html_doc ''a.html'')) = None \<and>
   convertDocument (example_env (\<lambda>u. None)) new_converter (html_doc ''a.html'')
     = Inl (Error ''File not found during scan: a.html'',
            \<lparr>scanner = [''a.html''], results = [], console = []\<rparr>)"
proof -
  have h: "files (scanner_getResults (example_env (\<lambda>u. None))
      (scanDocument (example_env (\<lambda>u. None)) (scanner new_converter) (html_doc ''a.html'')))
      (getDocumentUrl (example_env (\<lambda>u. None)) (html_doc ''a.html'')) = None"
    by (simp add: converter_eval)
  have e: "convertDocument (example_env (\<lambda>u. None)) new_converter (html_doc ''a.html'')
     = Inl (Error ''File not found during scan: a.html'',
            \<lparr>scanner = [''a.html''], results = [], console = []\<rparr>)"
    by (simp add: converter_eval)
  from convertDocument_not_found[OF h, of "[]"] h e show ?thesis by simp
qed

lemma cache_ok_convertDocument:
  assumes "convertDocument env pc doc = Inr pc'" and "cache_ok (results pc)"
  shows "cache_ok (results pc')"
  using assms
  by (auto simp: convertDocument_def Let_def cache_ok_store cache_ok_foldl_store
      split: option.splits if_splits)

text \<open>
  C4. \<open>convertDocument\<close> with a document that is not an HTML document does not throw. The
  document below has the kind \<open>js-document\<close> only and is classified \<open>delete-file\<close>: the
  message of the assertion is printed, the call returns, and the cache holds a new
  record.
\<close>

theorem convertDocument_not_html:
  "''html-document'' \<notin> kinds (js_doc ''lib.js'') \<and>
   convertDocument (example_env (\<lambda>u. Some ''delete-file'')) new_converter (js_doc ''lib.js'')
     = Inr \<lparr>scanner = [''lib.js''],
            results = [(''lib.js'', module_record ''lib.js'' ''lib.js'' True None)],
            console = [assert_message]\<rparr>"
  by (simp add: converter_eval Let_def)

text \<open>
  C5 as stated fails. The document \<open>a.html\<close> is converted, then \<open>b.html\<close>, whose scan adds
  to the export map, then \<open>a.html\<close> again: its URL is in the cache, the second scan of it
  changes nothing, and the call replaces its cached record by a different one.
\<close>

theorem convertDocument_again_counterexample:
  "convertDocument (example_env (\<lambda>u. Some ''html-document'')) new_converter (html_doc ''a.html'')
     = Inr \<lparr>scanner = [''a.html''],
            results = [(''a.html'', module_record ''a.html'' ''a.html'' False (Some ''a.html''))],
            console = []\<rparr> \<and>
   convertDocument (example_env (\<lambda>u. Some ''html-document''))
       \<lparr>scanner = [''a.html''],
        results = [(''a.html'', module_record ''a.html'' ''a.html'' False (Some ''a.html''))],
        console = []\<rparr> (html_doc ''b.html'')
     = Inr \<lparr>scanner = [''a.html'', ''b.html''],
            results = [(''a.html'', module_record ''a.html'' ''a.html'' False (Some ''a.html'')),
                       (''b.html'', module_record ''b.html'' ''b.html'' False (Some ''a.htmlb.html''))],
            console = []\<rparr> \<and>
   convertDocument (example_env (\<lambda>u. Some ''html-document''))
       \<lparr>scanner = [''a.html'', ''b.html''],
        results = [(''a.html'', module_record ''a.html'' ''a.html'' False (Some ''a.html'')),
                   (''b.html'', module_record ''b.html'' ''b.html'' False (Some ''a.htmlb.html''))],
        console = []\<rparr> (html_doc ''a.html'')
     = Inr \<lparr>scanner = [''a.html'', ''b.html''],
            results = [(''a.html'', module_record ''a.html'' ''a.html'' False (Some ''a.htmlb.html'')),
                       (''b.html'', module_record ''b.html'' ''b.html'' False (Some ''a.htmlb.html''))],
            console = []\<rparr> \<and>
   module_record ''a.html'' ''a.html'' False (Some ''a.html'')
     \<noteq> module_record ''a.html'' ''a.html'' False (Some ''a.htmlb.html'')"
  by (simp add: converter_eval Let_def)

text \<open>
  C5, as amended. \<open>convertDocument\<close> has no look at the cache before it converts: a
  repeated call converts the document again and stores what the conversion gives. When
  the call follows a conversion of the same document directly and scanning the document
  again leaves the scanner as it is, the records are the same and the call leaves the
  cache unchanged, with no entry added and none changed.
\<close>

theorem convertDocument_again:
  assumes "cache_ok (results this)"
    and "convertDocument env this doc = Inr this1"
    and "scanDocument env (scanner this1) doc = scanner this1"
  shows "\<exists>this2. convertDocument env this1 doc = Inr this2
           \<and> results this2 = results this1 \<and> scanner this2 = scanner this1"
proof -
  let ?sc = "scanDocument env (scanner this) doc"
  let ?sr = "scanner_getResults env ?sc"
  from assms(2) obtain ty where ty: "files ?sr (getDocumentUrl env doc) = Some ty"
    by (auto simp: convertDocument_def Let_def split: if_splits option.splits)
  from assms(2) ty have sc1: "scanner this1 = ?sc"
    by (auto simp: convertDocument_def Let_def split: if_splits)
  from assms(2) ty have r1: "results this1 =
     (if ty = ''js-module'' then foldl store (results this) (convertJsModule env doc (exports ?sr))
      else if ty = ''html-document'' then store (results this) (convertTopLevelHtmlDocument env doc (exports ?sr))
      else if ty = ''delete-file'' then store (results this) (createDeleteResult env doc (exports ?sr))
      else results this)"
    by (auto simp: convertDocument_def Let_def split: if_splits)
  from assms(3) sc1 have idem: "scanDocument env ?sc doc = ?sc" by simp
  have f: "files (scanner_getResults env (scanDocument env (scanner this1) doc)) (getDocumentUrl env doc) = Some ty"
    using ty sc1 idem by simp
  have e: "exports (scanner_getResults env (scanDocument env (scanner this1) doc)) = exports ?sr"
    using sc1 idem by simp
  show ?thesis
  proof (cases "ty = ''js-module''")
    case True
    with r1 have "results this1 = foldl store (results this) (convertJsModule env doc (exports ?sr))"
      by simp
    with foldl_store_twice[OF assms(1), of "convertJsModule env doc (exports ?sr)"]
    have "foldl store (results this1) (convertJsModule env doc (exports ?sr)) = results this1"
      by simp
    with True f e sc1 idem show ?thesis
      by (simp add: convertDocument_def Let_def)
  next
    case False
    note nj = this
    show ?thesis
    proof (cases "ty = ''html-document''")
      case True
      with r1 nj have "results this1 = store (results this) (convertTopLevelHtmlDocument env doc (exports ?sr))"
        by simp
      then have "store (results this1) (convertTopLevelHtmlDocument env doc (exports ?sr)) = results this1"
        by (simp add: store_twice)
      with True nj f e sc1 idem show ?thesis
        by (simp add: convertDocument_def Let_def)
    next
      case False
      note nh = this
      show ?thesis
      proof (cases "ty = ''delete-file''")
        case True
        with r1 nj nh have "results this1 = store (results this) (createDeleteResult env doc (exports ?sr))"
          by simp
        then have "store (results this1) (createDeleteResult env doc (exports ?sr)) = results this1"
          by (simp add: store_twice)
        with True nj nh f e sc1 idem show ?thesis
          by (simp add: convertDocument_def Let_def)
      next
        case False
        with nj nh f e sc1 idem show ?thesis
          by (simp add: convertDocument_def Let_def)
      qed
    qed
  qed
qed

theorem convertDocument_again_witness:
  "cache_ok (results new_converter) \<and>
   convertDocument (example_env (\<lambda>u. Some ''js-module'')) new_converter (html_doc ''a.html'')
     = Inr \<lparr>scanner = [''a.html''],
            results = [(''a.html'', module_record ''a.html'' ''a.html.js'' True (Some ''a.html''))],
            console = []\<rparr> \<and>
   scanDocument (example_env (\<lambda>u. Some ''js-module'')) [''a.html''] (html_doc ''a.html'') = [''a.html''] \<and>
   convertDocument (example_env (\<lambda>u. Some ''js-module''))
       \<lparr>scanner = [''a.html''],
        results = [(''a.html'', module_record ''a.html'' ''a.html.js'' True (Some ''a.html''))],
        console = []\<rparr> (html_doc ''a.html'')
     = Inr \<lparr>scanner = [''a.html''],
            results = [(''a.html'', module_record ''a.html'' ''a.html.js'' True (Some ''a.html''))],
            console = []\<rparr>"
proof -
  let ?env = "example_env (\<lambda>u. Some ''js-module'')"
  let ?pc1 = "\<lparr>scanner = [''a.html''],
        results = [(''a.html'', module_record ''a.html'' ''a.html.js'' True (Some ''a.html''))],
        console = []\<rparr>"
  have h1: "cache_ok (results new_converter)" by (simp add: converter_eval Let_def)
  have h2: "convertDocument ?env new_converter (html_doc ''a.html'') = Inr ?pc1"
    by (simp add: converter_eval Let_def)
  have h3: "scanDocument ?env (scanner ?pc1) (html_doc ''a.html'') = scanner ?pc1"
    by (simp add: converter_eval Let_def)
  have e: "convertDocument ?env ?pc1 (html_doc ''a.html'') = Inr ?pc1"
    by (simp add: converter_eval Let_def)
  from convertDocument_again[OF h1 h2 h3] h1 h2 h3 e show ?thesis by simp
qed

section \<open>Properties of the collected export names\<close>

lemmas ast_eval = getModuleExportNames_def traverse_def

text \<open>
  The two modules of the specification: \<open>export const a = 1, {b, c: d} = obj;\<close> gives
  \<open>a\<close>, \<open>b\<close> and \<open>d\<close>, and \<open>export {x as y};\<close> gives \<open>y\<close>.
\<close>

lemma export_names_examples:
  "getModuleExportNames (File (Program
     [ExportNamedDeclaration
        (VariableDeclaration
           [VariableDeclarator (Identifier ''a'') (Other []),
            VariableDeclarator
              (ObjectPattern [ObjectProperty (Identifier ''b'') (Identifier ''b''),
                              ObjectProperty (Identifier ''c'') (Identifier ''d'')])
              (Identifier ''obj'')])
        [] Null])) = {''a'', ''b'', ''d''}"
  "getModuleExportNames (File (Program
     [ExportNamedDeclaration Null [ExportSpecifier (Identifier ''x'') (Identifier ''y'')] Null]))
     = {''y''}"
  by (simp_all add: ast_eval)

text \<open>
  C9. Not every exported name is collected. \<open>export const {a = 1} = obj;\<close> exports \<open>a\<close>: the
  value of the property is an assignment pattern, a kind \<open>getModuleExportIdentifiers\<close>
  does not look into, and the result is empty. \<open>export const [x, ...rest] = arr;\<close>
  exports \<open>x\<close> and \<open>rest\<close>: the rest element is not looked into either, and the result
  holds \<open>x\<close> only.
\<close>

theorem export_names_missed:
  "getModuleExportNames (File (Program
     [ExportNamedDeclaration
        (VariableDeclaration
           [VariableDeclarator
              (ObjectPattern
                 [ObjectProperty (Identifier ''a'')
                    (AssignmentPattern (Identifier ''a'') (Other []))])
              (Identifier ''obj'')])
        [] Null])) = {} \<and>
   spec_export_names (File (Program
     [ExportNamedDeclaration
        (VariableDeclaration
           [VariableDeclarator
              (ObjectPattern
                 [ObjectProperty (Identifier ''a'')
                    (AssignmentPattern (Identifier ''a'') (Other []))])
              (Identifier ''obj'')])
        [] Null])) = {''a''} \<and>
   getModuleExportNames (File (Program
     [ExportNamedDeclaration
        (VariableDeclaration
           [VariableDeclarator
              (ArrayPattern [Identifier ''x'', RestElement (Identifier ''rest'')])
              (Identifier ''arr'')])
        [] Null])) = {''x''} \<and>
   spec_export_names (File (Program
     [ExportNamedDeclaration
        (VariableDeclaration
           [VariableDeclarator
              (ArrayPattern [Identifier ''x'', RestElement (Identifier ''rest'')])
              (Identifier ''arr'')])
        [] Null])) = {''x'', ''rest''}"
  by (simp add: ast_eval)

end
